theory Spec2Isabelle
  imports Main "HOL-Library.Word"
begin

section \<open>Strings of the front end\<close>

text \<open>
  The front end (\<^verbatim>\<open>src/frontend/src/App.tsx\<close>) is TypeScript: a string is a sequence of
  UTF-16 code units, and \<^verbatim>\<open>length\<close>, \<^verbatim>\<open>substring\<close> and \<^verbatim>\<open>includes\<close> count and compare
  code units. A string is therefore a list of 16-bit words. Literals of the source that are
  plain ASCII are written with \<open>ascii\<close>; the Russian literals are given by their code units.
\<close>

type_synonym unit16 = "16 word"
type_synonym jsstring = "unit16 list"

definition ascii :: "string \<Rightarrow> jsstring" where
  "ascii s = map (\<lambda>c. of_nat (of_char c)) s"

text \<open>\<^verbatim>\<open>s.substring(0, n)\<close> for a literal \<open>n \<ge> 0\<close>: the first \<open>n\<close> code units, all of \<open>s\<close>
  when it is shorter.\<close>

definition substring0 :: "jsstring \<Rightarrow> nat \<Rightarrow> jsstring" where
  "substring0 s n = take n s"

text \<open>\<^verbatim>\<open>s.includes(k)\<close>: \<open>k\<close> occurs in \<open>s\<close> at some position, compared unit by unit.\<close>

definition startsWith :: "jsstring \<Rightarrow> jsstring \<Rightarrow> bool" where
  "startsWith s k = (take (length k) s = k)"

fun str_includes :: "jsstring \<Rightarrow> jsstring \<Rightarrow> bool" where
  "str_includes [] k = (k = [])"
| "str_includes (c # cs) k = (startsWith (c # cs) k \<or> str_includes cs k)"

subsection \<open>\<^verbatim>\<open>toLowerCase\<close>\<close>

text \<open>
  \<^verbatim>\<open>s.toLowerCase()\<close> is the runtime's: ECMA-262 reads the string by code points (a high
  surrogate followed by a low one is one code point, a surrogate on its own stands for
  itself), maps each code point by the Unicode default case conversion, and writes the
  result back as UTF-16. The conversion is written out with the tables of the Unicode
  Character Database, version 14.0: the simple lower-case mapping, the one unconditional
  special case (U+0130 becomes U+0069 U+0307) and the one that depends on the context (a
  capital sigma U+03A3 becomes the final sigma U+03C2 when a cased letter stands before it
  and none after it, case-ignorable characters skipped, and U+03C3 otherwise).
\<close>

type_synonym code_point = nat

definition is_high_surrogate :: "unit16 \<Rightarrow> bool" where
  "is_high_surrogate c = (0xD800 \<le> c \<and> c \<le> 0xDBFF)"

definition is_low_surrogate :: "unit16 \<Rightarrow> bool" where
  "is_low_surrogate c = (0xDC00 \<le> c \<and> c \<le> 0xDFFF)"

fun code_points :: "jsstring \<Rightarrow> code_point list" where
  "code_points [] = []"
| "code_points [c] = [unat c]"
| "code_points (c # d # cs) =
     (if is_high_surrogate c \<and> is_low_surrogate d
      then (0x10000 + (unat c - 0xD800) * 0x400 + (unat d - 0xDC00)) # code_points cs
      else unat c # code_points (d # cs))"

definition utf16 :: "code_point \<Rightarrow> jsstring" where
  "utf16 p =
     (if p < 0x10000 then [of_nat p]
      else [of_nat (0xD800 + (p - 0x10000) div 0x400), of_nat (0xDC00 + (p - 0x10000) mod 0x400)])"

text \<open>
  The simple lower-case mapping, as runs \<open>(lo, hi, step, target)\<close> in increasing order:
  the code points \<open>lo\<close>, \<open>lo + step\<close>, ... up to \<open>hi\<close> map to \<open>target\<close>,
  \<open>target + step\<close>, ...; every other code point maps to itself.
\<close>

definition lower_runs :: "(nat \<times> nat \<times> nat \<times> nat) list" where
  "lower_runs =
    [(65, 90, 1, 97), (192, 214, 1, 224), (216, 222, 1, 248), (256, 302, 2, 257),
     (306, 310, 2, 307), (313, 327, 2, 314), (330, 374, 2, 331), (376, 376, 1, 255),
     (377, 381, 2, 378), (385, 385, 1, 595), (386, 388, 2, 387), (390, 390, 1, 596),
     (391, 391, 1, 392), (393, 394, 1, 598), (395, 395, 1, 396), (398, 398, 1, 477),
     (399, 399, 1, 601), (400, 400, 1, 603), (401, 401, 1, 402), (403, 403, 1, 608),
     (404, 404, 1, 611), (406, 406, 1, 617), (407, 407, 1, 616), (408, 408, 1, 409),
     (412, 412, 1, 623), (413, 413, 1, 626), (415, 415, 1, 629), (416, 420, 2, 417),
     (422, 422, 1, 640), (423, 423, 1, 424), (425, 425, 1, 643), (428, 428, 1, 429),
     (430, 430, 1, 648), (431, 431, 1, 432), (433, 434, 1, 650), (435, 437, 2, 436),
     (439, 439, 1, 658), (440, 440, 1, 441), (444, 444, 1, 445), (452, 452, 1, 454),
     (453, 453, 1, 454), (455, 455, 1, 457), (456, 456, 1, 457), (458, 458, 1, 460),
     (459, 475, 2, 460), (478, 494, 2, 479), (497, 497, 1, 499), (498, 500, 2, 499),
     (502, 502, 1, 405), (503, 503, 1, 447), (504, 542, 2, 505), (544, 544, 1, 414),
     (546, 562, 2, 547), (570, 570, 1, 11365), (571, 571, 1, 572), (573, 573, 1, 410),
     (574, 574, 1, 11366), (577, 577, 1, 578), (579, 579, 1, 384), (580, 580, 1, 649),
     (581, 581, 1, 652), (582, 590, 2, 583), (880, 882, 2, 881), (886, 886, 1, 887),
     (895, 895, 1, 1011), (902, 902, 1, 940), (904, 906, 1, 941), (908, 908, 1, 972),
     (910, 911, 1, 973), (913, 929, 1, 945), (931, 939, 1, 963), (975, 975, 1, 983),
     (984, 1006, 2, 985), (1012, 1012, 1, 952), (1015, 1015, 1, 1016), (1017, 1017, 1, 1010),
     (1018, 1018, 1, 1019), (1021, 1023, 1, 891), (1024, 1039, 1, 1104), (1040, 1071, 1, 1072),
     (1120, 1152, 2, 1121), (1162, 1214, 2, 1163), (1216, 1216, 1, 1231), (1217, 1229, 2, 1218),
     (1232, 1326, 2, 1233), (1329, 1366, 1, 1377), (4256, 4293, 1, 11520),
     (4295, 4295, 1, 11559), (4301, 4301, 1, 11565), (5024, 5103, 1, 43888),
     (5104, 5109, 1, 5112), (7312, 7354, 1, 4304), (7357, 7359, 1, 4349), (7680, 7828, 2, 7681),
     (7838, 7838, 1, 223), (7840, 7934, 2, 7841), (7944, 7951, 1, 7936), (7960, 7965, 1, 7952),
     (7976, 7983, 1, 7968), (7992, 7999, 1, 7984), (8008, 8013, 1, 8000), (8025, 8031, 2, 8017),
     (8040, 8047, 1, 8032), (8072, 8079, 1, 8064), (8088, 8095, 1, 8080), (8104, 8111, 1, 8096),
     (8120, 8121, 1, 8112), (8122, 8123, 1, 8048), (8124, 8124, 1, 8115), (8136, 8139, 1, 8050),
     (8140, 8140, 1, 8131), (8152, 8153, 1, 8144), (8154, 8155, 1, 8054), (8168, 8169, 1, 8160),
     (8170, 8171, 1, 8058), (8172, 8172, 1, 8165), (8184, 8185, 1, 8056), (8186, 8187, 1, 8060),
     (8188, 8188, 1, 8179), (8486, 8486, 1, 969), (8490, 8490, 1, 107), (8491, 8491, 1, 229),
     (8498, 8498, 1, 8526), (8544, 8559, 1, 8560), (8579, 8579, 1, 8580), (9398, 9423, 1, 9424),
     (11264, 11311, 1, 11312), (11360, 11360, 1, 11361), (11362, 11362, 1, 619),
     (11363, 11363, 1, 7549), (11364, 11364, 1, 637), (11367, 11371, 2, 11368),
     (11373, 11373, 1, 593), (11374, 11374, 1, 625), (11375, 11375, 1, 592),
     (11376, 11376, 1, 594), (11378, 11378, 1, 11379), (11381, 11381, 1, 11382),
     (11390, 11391, 1, 575), (11392, 11490, 2, 11393), (11499, 11501, 2, 11500),
     (11506, 11506, 1, 11507), (42560, 42604, 2, 42561), (42624, 42650, 2, 42625),
     (42786, 42798, 2, 42787), (42802, 42862, 2, 42803), (42873, 42875, 2, 42874),
     (42877, 42877, 1, 7545), (42878, 42886, 2, 42879), (42891, 42891, 1, 42892),
     (42893, 42893, 1, 613), (42896, 42898, 2, 42897), (42902, 42920, 2, 42903),
     (42922, 42922, 1, 614), (42923, 42923, 1, 604), (42924, 42924, 1, 609),
     (42925, 42925, 1, 620), (42926, 42926, 1, 618), (42928, 42928, 1, 670),
     (42929, 42929, 1, 647), (42930, 42930, 1, 669), (42931, 42931, 1, 43859),
     (42932, 42946, 2, 42933), (42948, 42948, 1, 42900), (42949, 42949, 1, 642),
     (42950, 42950, 1, 7566), (42951, 42953, 2, 42952), (42960, 42960, 1, 42961),
     (42966, 42968, 2, 42967), (42997, 42997, 1, 42998), (65313, 65338, 1, 65345),
     (66560, 66599, 1, 66600), (66736, 66771, 1, 66776), (66928, 66938, 1, 66967),
     (66940, 66954, 1, 66979), (66956, 66962, 1, 66995), (66964, 66965, 1, 67003),
     (68736, 68786, 1, 68800), (71840, 71871, 1, 71872), (93760, 93791, 1, 93792),
     (125184, 125217, 1, 125218)]"

fun run_lookup :: "(nat \<times> nat \<times> nat \<times> nat) list \<Rightarrow> code_point \<Rightarrow> code_point" where
  "run_lookup [] p = p"
| "run_lookup ((lo, hi, step, target) # rs) p =
     (if p < lo then p
      else if p \<le> hi then (if (p - lo) mod step = 0 then target + (p - lo) else p)
      else run_lookup rs p)"

definition simple_lower :: "code_point \<Rightarrow> code_point" where
  "simple_lower p = run_lookup lower_runs p"

text \<open>The case-ignorable code points, and the cased letters that are not case-ignorable,
  as ranges \<open>(lo, hi)\<close> in increasing order.\<close>

definition ignorable_ranges :: "(nat \<times> nat) list" where
  "ignorable_ranges =
    [(39, 39), (46, 46), (58, 58), (94, 94), (96, 96), (168, 168), (173, 173), (175, 175),
     (180, 180), (183, 184), (688, 879), (884, 885), (890, 890), (900, 901), (903, 903),
     (1155, 1161), (1369, 1369), (1375, 1375), (1425, 1469), (1471, 1471), (1473, 1474),
     (1476, 1477), (1479, 1479), (1524, 1524), (1536, 1541), (1552, 1562), (1564, 1564),
     (1600, 1600), (1611, 1631), (1648, 1648), (1750, 1757), (1759, 1768), (1770, 1773),
     (1807, 1807), (1809, 1809), (1840, 1866), (1958, 1968), (2027, 2037), (2042, 2042),
     (2045, 2045), (2070, 2093), (2137, 2139), (2184, 2184), (2192, 2193), (2200, 2207),
     (2249, 2306), (2362, 2362), (2364, 2364), (2369, 2376), (2381, 2381), (2385, 2391),
     (2402, 2403), (2417, 2417), (2433, 2433), (2492, 2492), (2497, 2500), (2509, 2509),
     (2530, 2531), (2558, 2558), (2561, 2562), (2620, 2620), (2625, 2626), (2631, 2632),
     (2635, 2637), (2641, 2641), (2672, 2673), (2677, 2677), (2689, 2690), (2748, 2748),
     (2753, 2757), (2759, 2760), (2765, 2765), (2786, 2787), (2810, 2815), (2817, 2817),
     (2876, 2876), (2879, 2879), (2881, 2884), (2893, 2893), (2901, 2902), (2914, 2915),
     (2946, 2946), (3008, 3008), (3021, 3021), (3072, 3072), (3076, 3076), (3132, 3132),
     (3134, 3136), (3142, 3144), (3146, 3149), (3157, 3158), (3170, 3171), (3201, 3201),
     (3260, 3260), (3263, 3263), (3270, 3270), (3276, 3277), (3298, 3299), (3328, 3329),
     (3387, 3388), (3393, 3396), (3405, 3405), (3426, 3427), (3457, 3457), (3530, 3530),
     (3538, 3540), (3542, 3542), (3633, 3633), (3636, 3642), (3654, 3662), (3761, 3761),
     (3764, 3772), (3782, 3782), (3784, 3789), (3864, 3865), (3893, 3893), (3895, 3895),
     (3897, 3897), (3953, 3966), (3968, 3972), (3974, 3975), (3981, 3991), (3993, 4028),
     (4038, 4038), (4141, 4144), (4146, 4151), (4153, 4154), (4157, 4158), (4184, 4185),
     (4190, 4192), (4209, 4212), (4226, 4226), (4229, 4230), (4237, 4237), (4253, 4253),
     (4348, 4348), (4957, 4959), (5906, 5908), (5938, 5939), (5970, 5971), (6002, 6003),
     (6068, 6069), (6071, 6077), (6086, 6086), (6089, 6099), (6103, 6103), (6109, 6109),
     (6155, 6159), (6211, 6211), (6277, 6278), (6313, 6313), (6432, 6434), (6439, 6440),
     (6450, 6450), (6457, 6459), (6679, 6680), (6683, 6683), (6742, 6742), (6744, 6750),
     (6752, 6752), (6754, 6754), (6757, 6764), (6771, 6780), (6783, 6783), (6823, 6823),
     (6832, 6862), (6912, 6915), (6964, 6964), (6966, 6970), (6972, 6972), (6978, 6978),
     (7019, 7027), (7040, 7041), (7074, 7077), (7080, 7081), (7083, 7085), (7142, 7142),
     (7144, 7145), (7149, 7149), (7151, 7153), (7212, 7219), (7222, 7223), (7288, 7293),
     (7376, 7378), (7380, 7392), (7394, 7400), (7405, 7405), (7412, 7412), (7416, 7417),
     (7468, 7530), (7544, 7544), (7579, 7679), (8125, 8125), (8127, 8129), (8141, 8143),
     (8157, 8159), (8173, 8175), (8189, 8190), (8203, 8207), (8216, 8217), (8228, 8228),
     (8231, 8231), (8234, 8238), (8288, 8292), (8294, 8303), (8305, 8305), (8319, 8319),
     (8336, 8348), (8400, 8432), (11388, 11389), (11503, 11505), (11631, 11631), (11647, 11647),
     (11744, 11775), (11823, 11823), (12293, 12293), (12330, 12333), (12337, 12341),
     (12347, 12347), (12441, 12446), (12540, 12542), (40981, 40981), (42232, 42237),
     (42508, 42508), (42607, 42610), (42612, 42621), (42623, 42623), (42652, 42655),
     (42736, 42737), (42752, 42785), (42864, 42864), (42888, 42890), (42994, 42996),
     (43000, 43001), (43010, 43010), (43014, 43014), (43019, 43019), (43045, 43046),
     (43052, 43052), (43204, 43205), (43232, 43249), (43263, 43263), (43302, 43309),
     (43335, 43345), (43392, 43394), (43443, 43443), (43446, 43449), (43452, 43453),
     (43471, 43471), (43493, 43494), (43561, 43566), (43569, 43570), (43573, 43574),
     (43587, 43587), (43596, 43596), (43632, 43632), (43644, 43644), (43696, 43696),
     (43698, 43700), (43703, 43704), (43710, 43711), (43713, 43713), (43741, 43741),
     (43756, 43757), (43763, 43764), (43766, 43766), (43867, 43871), (43881, 43883),
     (44005, 44005), (44008, 44008), (44013, 44013), (64286, 64286), (64434, 64450),
     (65024, 65039), (65043, 65043), (65056, 65071), (65106, 65106), (65109, 65109),
     (65279, 65279), (65287, 65287), (65294, 65294), (65306, 65306), (65342, 65342),
     (65344, 65344), (65392, 65392), (65438, 65439), (65507, 65507), (65529, 65531),
     (66045, 66045), (66272, 66272), (66422, 66426), (67456, 67461), (67463, 67504),
     (67506, 67514), (68097, 68099), (68101, 68102), (68108, 68111), (68152, 68154),
     (68159, 68159), (68325, 68326), (68900, 68903), (69291, 69292), (69446, 69456),
     (69506, 69509), (69633, 69633), (69688, 69702), (69744, 69744), (69747, 69748),
     (69759, 69761), (69811, 69814), (69817, 69818), (69821, 69821), (69826, 69826),
     (69837, 69837), (69888, 69890), (69927, 69931), (69933, 69940), (70003, 70003),
     (70016, 70017), (70070, 70078), (70089, 70092), (70095, 70095), (70191, 70193),
     (70196, 70196), (70198, 70199), (70206, 70206), (70367, 70367), (70371, 70378),
     (70400, 70401), (70459, 70460), (70464, 70464), (70502, 70508), (70512, 70516),
     (70712, 70719), (70722, 70724), (70726, 70726), (70750, 70750), (70835, 70840),
     (70842, 70842), (70847, 70848), (70850, 70851), (71090, 71093), (71100, 71101),
     (71103, 71104), (71132, 71133), (71219, 71226), (71229, 71229), (71231, 71232),
     (71339, 71339), (71341, 71341), (71344, 71349), (71351, 71351), (71453, 71455),
     (71458, 71461), (71463, 71467), (71727, 71735), (71737, 71738), (71995, 71996),
     (71998, 71998), (72003, 72003), (72148, 72151), (72154, 72155), (72160, 72160),
     (72193, 72202), (72243, 72248), (72251, 72254), (72263, 72263), (72273, 72278),
     (72281, 72283), (72330, 72342), (72344, 72345), (72752, 72758), (72760, 72765),
     (72767, 72767), (72850, 72871), (72874, 72880), (72882, 72883), (72885, 72886),
     (73009, 73014), (73018, 73018), (73020, 73021), (73023, 73029), (73031, 73031),
     (73104, 73105), (73109, 73109), (73111, 73111), (73459, 73460), (78896, 78904),
     (92912, 92916), (92976, 92982), (92992, 92995), (94031, 94031), (94095, 94111),
     (94176, 94177), (94179, 94180), (110576, 110579), (110581, 110587), (110589, 110590),
     (113821, 113822), (113824, 113827), (118528, 118573), (118576, 118598), (119143, 119145),
     (119155, 119170), (119173, 119179), (119210, 119213), (119362, 119364), (121344, 121398),
     (121403, 121452), (121461, 121461), (121476, 121476), (121499, 121503), (121505, 121519),
     (122880, 122886), (122888, 122904), (122907, 122913), (122915, 122916), (122918, 122922),
     (123184, 123197), (123566, 123566), (123628, 123631), (125136, 125142), (125252, 125259),
     (127995, 127999), (917505, 917505), (917536, 917631), (917760, 917999)]"

definition cased_ranges :: "(nat \<times> nat) list" where
  "cased_ranges =
    [(65, 90), (97, 122), (170, 170), (181, 181), (186, 186), (192, 214), (216, 246),
     (248, 442), (444, 447), (452, 659), (661, 687), (880, 883), (886, 887), (891, 893),
     (895, 895), (902, 902), (904, 906), (908, 908), (910, 929), (931, 1013), (1015, 1153),
     (1162, 1327), (1329, 1366), (1376, 1416), (4256, 4293), (4295, 4295), (4301, 4301),
     (4304, 4346), (4349, 4351), (5024, 5109), (5112, 5117), (7296, 7304), (7312, 7354),
     (7357, 7359), (7424, 7467), (7531, 7543), (7545, 7578), (7680, 7957), (7960, 7965),
     (7968, 8005), (8008, 8013), (8016, 8023), (8025, 8025), (8027, 8027), (8029, 8029),
     (8031, 8061), (8064, 8116), (8118, 8124), (8126, 8126), (8130, 8132), (8134, 8140),
     (8144, 8147), (8150, 8155), (8160, 8172), (8178, 8180), (8182, 8188), (8450, 8450),
     (8455, 8455), (8458, 8467), (8469, 8469), (8473, 8477), (8484, 8484), (8486, 8486),
     (8488, 8488), (8490, 8493), (8495, 8500), (8505, 8505), (8508, 8511), (8517, 8521),
     (8526, 8526), (8544, 8575), (8579, 8580), (9398, 9449), (11264, 11387), (11390, 11492),
     (11499, 11502), (11506, 11507), (11520, 11557), (11559, 11559), (11565, 11565),
     (42560, 42605), (42624, 42651), (42786, 42863), (42865, 42887), (42891, 42894),
     (42896, 42954), (42960, 42961), (42963, 42963), (42965, 42969), (42997, 42998),
     (43002, 43002), (43824, 43866), (43872, 43880), (43888, 43967), (64256, 64262),
     (64275, 64279), (65313, 65338), (65345, 65370), (66560, 66639), (66736, 66771),
     (66776, 66811), (66928, 66938), (66940, 66954), (66956, 66962), (66964, 66965),
     (66967, 66977), (66979, 66993), (66995, 67001), (67003, 67004), (68736, 68786),
     (68800, 68850), (71840, 71903), (93760, 93823), (119808, 119892), (119894, 119964),
     (119966, 119967), (119970, 119970), (119973, 119974), (119977, 119980), (119982, 119993),
     (119995, 119995), (119997, 120003), (120005, 120069), (120071, 120074), (120077, 120084),
     (120086, 120092), (120094, 120121), (120123, 120126), (120128, 120132), (120134, 120134),
     (120138, 120144), (120146, 120485), (120488, 120512), (120514, 120538), (120540, 120570),
     (120572, 120596), (120598, 120628), (120630, 120654), (120656, 120686), (120688, 120712),
     (120714, 120744), (120746, 120770), (120772, 120779), (122624, 122633), (122635, 122654),
     (125184, 125251), (127280, 127305), (127312, 127337), (127344, 127369)]"

fun in_ranges :: "(nat \<times> nat) list \<Rightarrow> code_point \<Rightarrow> bool" where
  "in_ranges [] p = False"
| "in_ranges ((lo, hi) # rs) p =
     (if p < lo then False else if p \<le> hi then True else in_ranges rs p)"

definition case_ignorable :: "code_point \<Rightarrow> bool" where
  "case_ignorable p = in_ranges ignorable_ranges p"

definition cased :: "code_point \<Rightarrow> bool" where
  "cased p = in_ranges cased_ranges p"

text \<open>A cased letter is the first code point that is not case-ignorable; \<open>seen\<close> is
  the text before the sigma, nearest code point first, and \<open>rest\<close> the text after it.\<close>

definition cased_next :: "code_point list \<Rightarrow> bool" where
  "cased_next ps = (case dropWhile case_ignorable ps of [] \<Rightarrow> False | q # _ \<Rightarrow> cased q)"

definition final_sigma :: "code_point list \<Rightarrow> code_point list \<Rightarrow> bool" where
  "final_sigma seen rest = (cased_next seen \<and> \<not> cased_next rest)"

fun lower_points :: "code_point list \<Rightarrow> code_point list \<Rightarrow> code_point list" where
  "lower_points seen [] = []"
| "lower_points seen (p # ps) =
     (if p = 0x130 then [0x69, 0x307]
      else if p = 0x3A3 then [if final_sigma seen ps then 0x3C2 else 0x3C3]
      else [simple_lower p])
     @ lower_points (p # seen) ps"

definition toLowerCase :: "jsstring \<Rightarrow> jsstring" where
  "toLowerCase s = concat (map utf16 (lower_points [] (code_points s)))"

section \<open>Spec synthesizer: \<^verbatim>\<open>createOpenAPIFromText\<close>\<close>

record openapi_info =
  title :: jsstring
  version :: jsstring
  description :: jsstring

text \<open>The \<^verbatim>\<open>paths\<close> object is a constant, nested object literals with a string at the
  end: an object is the list of its keys with their values, in the order of the source.\<close>

datatype js_literal = Str jsstring | Obj "(jsstring \<times> js_literal) list"

record openapi_spec =
  openapi :: jsstring
  info :: openapi_info
  paths :: js_literal

definition ellipsis :: jsstring where
  "ellipsis = ascii ''...''"

definition title_prefix :: jsstring where
  "title_prefix = ascii ''TestOps - ''"

definition createOpenAPIFromText :: "jsstring \<Rightarrow> openapi_spec" where
  "createOpenAPIFromText text =
     \<lparr> openapi = ascii ''3.0.0'',
       info = \<lparr> title = title_prefix @ substring0 text 30
                          @ (if length text > 30 then ellipsis else []),
                version = ascii ''1.0.0'',
                description = text \<rparr>,
       paths =
         Obj [(ascii ''/test'',
               Obj [(ascii ''get'',
                     Obj [(ascii ''responses'',
                           Obj [(ascii ''200'',
                                 Obj [(ascii ''description'',
                                       Str (ascii ''Auto-generated test endpoint''))])])])])] \<rparr>"

section \<open>Mode classifier: \<^verbatim>\<open>getTestType\<close>\<close>

text \<open>The two strings \<^verbatim>\<open>getTestType\<close> returns, \<^verbatim>\<open>"manual_ui"\<close> and \<^verbatim>\<open>"auto_api"\<close>.\<close>

datatype generation_mode = manual_ui | auto_api

text \<open>The three keywords of the source: \<^verbatim>\<open>ui\<close>, and the Russian words for
  ``interface'' (9 letters) and ``calculator'' (11 letters).\<close>

definition kw_ui :: jsstring where
  "kw_ui = ascii ''ui''"

definition kw_interface :: jsstring where
  "kw_interface = [0x0438, 0x043D, 0x0442, 0x0435, 0x0440, 0x0444, 0x0435, 0x0439, 0x0441]"

definition kw_calculator :: jsstring where
  "kw_calculator =
     [0x043A, 0x0430, 0x043B, 0x044C, 0x043A, 0x0443, 0x043B, 0x044F, 0x0442, 0x043E, 0x0440]"

definition getTestType :: "jsstring \<Rightarrow> generation_mode" where
  "getTestType text =
     (let lower = toLowerCase text
      in if str_includes lower kw_ui \<or> str_includes lower kw_interface
            \<or> str_includes lower kw_calculator
         then manual_ui
         else auto_api)"




section \<open>The runtime's JSON, as the history store uses it\<close>

text \<open>
  The history is persisted with \<^verbatim>\<open>JSON.stringify\<close> and read back with \<^verbatim>\<open>JSON.parse\<close>.
  Both are the runtime's; they are written out here after ECMA-262 (\<^verbatim>\<open>QuoteJSONString\<close>
  and the JSON grammar), so that persisting and loading are functions on the stored text.
\<close>

subsection \<open>Writing a string: \<^verbatim>\<open>QuoteJSONString\<close>\<close>

definition hex_digit :: "nat \<Rightarrow> unit16" where
  "hex_digit d = (if d < 10 then 0x30 + of_nat d else 0x57 + of_nat d)"

text \<open>\<^verbatim>\<open>\uXXXX\<close>, four lower-case hexadecimal digits.\<close>

definition unicode_escape :: "unit16 \<Rightarrow> jsstring" where
  "unicode_escape c =
     (let n = unat c
      in [0x5C, 0x75, hex_digit (n div 4096), hex_digit (n div 256 mod 16),
          hex_digit (n div 16 mod 16), hex_digit (n mod 16)])"

definition escape_unit :: "unit16 \<Rightarrow> jsstring" where
  "escape_unit c =
     (if c = 0x08 then [0x5C, 0x62]
      else if c = 0x09 then [0x5C, 0x74]
      else if c = 0x0A then [0x5C, 0x6E]
      else if c = 0x0C then [0x5C, 0x66]
      else if c = 0x0D then [0x5C, 0x72]
      else if c = 0x22 then [0x5C, 0x22]
      else if c = 0x5C then [0x5C, 0x5C]
      else if c < 0x20 \<or> is_high_surrogate c \<or> is_low_surrogate c then unicode_escape c
      else [c])"

text \<open>The string is read by code points: a high surrogate followed by a low one is a
  pair and is written as it is; a surrogate on its own is escaped.\<close>

fun quote_body :: "jsstring \<Rightarrow> jsstring" where
  "quote_body [] = []"
| "quote_body [c] = escape_unit c"
| "quote_body (c # d # cs) =
     (if is_high_surrogate c \<and> is_low_surrogate d then c # d # quote_body cs
      else escape_unit c @ quote_body (d # cs))"

definition QuoteJSONString :: "jsstring \<Rightarrow> jsstring" where
  "QuoteJSONString s = 0x22 # quote_body s @ [0x22]"

subsection \<open>Reading: the JSON grammar\<close>

text \<open>A number is kept as the text of its literal: its value is a double, which no part of
  the application reads. An object is kept as its members in the order of the text (the
  runtime keeps, of the members that share a key, the last one).\<close>

datatype json =
    JNull
  | JBool bool
  | JNum jsstring
  | JStr jsstring
  | JArr "json list"
  | JObj "(jsstring \<times> json) list"

definition is_ws :: "unit16 \<Rightarrow> bool" where
  "is_ws c = (c = 0x20 \<or> c = 0x09 \<or> c = 0x0A \<or> c = 0x0D)"

definition skip_ws :: "jsstring \<Rightarrow> jsstring" where
  "skip_ws s = dropWhile is_ws s"

definition hex_value :: "unit16 \<Rightarrow> nat option" where
  "hex_value c =
     (if 0x30 \<le> c \<and> c \<le> 0x39 then Some (unat c - 0x30)
      else if 0x61 \<le> c \<and> c \<le> 0x66 then Some (unat c - 0x57)
      else if 0x41 \<le> c \<and> c \<le> 0x46 then Some (unat c - 0x37)
      else None)"

definition hex4 :: "unit16 \<Rightarrow> unit16 \<Rightarrow> unit16 \<Rightarrow> unit16 \<Rightarrow> unit16 option" where
  "hex4 a b c d =
     (case (hex_value a, hex_value b, hex_value c, hex_value d) of
        (Some x, Some y, Some z, Some w) \<Rightarrow> Some (of_nat (((x * 16 + y) * 16 + z) * 16 + w))
      | _ \<Rightarrow> None)"

definition unescape_simple :: "unit16 \<Rightarrow> unit16 option" where
  "unescape_simple e =
     (if e = 0x22 then Some 0x22
      else if e = 0x5C then Some 0x5C
      else if e = 0x2F then Some 0x2F
      else if e = 0x62 then Some 0x08
      else if e = 0x66 then Some 0x0C
      else if e = 0x6E then Some 0x0A
      else if e = 0x72 then Some 0x0D
      else if e = 0x74 then Some 0x09
      else None)"

definition cons_unit :: "unit16 \<Rightarrow> (jsstring \<times> jsstring) option \<Rightarrow> (jsstring \<times> jsstring) option" where
  "cons_unit u res = (case res of None \<Rightarrow> None | Some (s, r) \<Rightarrow> Some (u # s, r))"

text \<open>The characters of a string after its opening quote, up to the closing quote: the
  decoded string and the text after the quote. A raw control character, an unknown escape
  and a missing closing quote are syntax errors (\<open>None\<close>).\<close>

fun parse_chars :: "jsstring \<Rightarrow> (jsstring \<times> jsstring) option" where
  "parse_chars [] = None"
| "parse_chars (c # cs) =
     (if c = 0x22 then Some ([], cs)
      else if c = 0x5C then
        (case cs of
           [] \<Rightarrow> None
         | e # es \<Rightarrow>
             if e = 0x75 then
               (case es of
                  h1 # h2 # h3 # h4 # r \<Rightarrow>
                    (case hex4 h1 h2 h3 h4 of
                       None \<Rightarrow> None
                     | Some u \<Rightarrow> cons_unit u (parse_chars r))
                | _ \<Rightarrow> None)
             else
               (case unescape_simple e of
                  None \<Rightarrow> None
                | Some u \<Rightarrow> cons_unit u (parse_chars es)))
      else if c < 0x20 then None
      else cons_unit c (parse_chars cs))"

definition is_digit :: "unit16 \<Rightarrow> bool" where
  "is_digit c = (0x30 \<le> c \<and> c \<le> 0x39)"

text \<open>The exponent, the fraction and the integer part of a number; each returns the literal
  read so far and the text after it.\<close>

definition parse_exponent :: "jsstring \<Rightarrow> jsstring \<Rightarrow> (jsstring \<times> jsstring) option" where
  "parse_exponent lit s =
     (case s of
        [] \<Rightarrow> Some (lit, s)
      | e # r \<Rightarrow>
          if e = 0x65 \<or> e = 0x45 then
            (let sign = (case r of [] \<Rightarrow> [] | g # _ \<Rightarrow> if g = 0x2B \<or> g = 0x2D then [g] else []);
                 r' = drop (length sign) r;
                 ds = takeWhile is_digit r'
             in if ds = [] then None else Some (lit @ e # sign @ ds, dropWhile is_digit r'))
          else Some (lit, s))"

definition parse_fraction :: "jsstring \<Rightarrow> jsstring \<Rightarrow> (jsstring \<times> jsstring) option" where
  "parse_fraction lit s =
     (case s of
        [] \<Rightarrow> Some (lit, s)
      | p # r \<Rightarrow>
          if p = 0x2E then
            (let ds = takeWhile is_digit r
             in if ds = [] then None else parse_exponent (lit @ p # ds) (dropWhile is_digit r))
          else parse_exponent lit s)"

definition parse_number :: "jsstring \<Rightarrow> (jsstring \<times> jsstring) option" where
  "parse_number s =
     (let sign = (case s of [] \<Rightarrow> [] | g # _ \<Rightarrow> if g = 0x2D then [g] else []);
          s' = drop (length sign) s
      in case s' of
           [] \<Rightarrow> None
         | d # r \<Rightarrow>
             if d = 0x30 then parse_fraction (sign @ [d]) r
             else if is_digit d then
               parse_fraction (sign @ d # takeWhile is_digit r) (dropWhile is_digit r)
             else None)"

text \<open>
  A value, the elements of an array after its opening bracket, and the members of an
  object after its opening brace. Each returns what it read and the text after it, or
  \<open>None\<close> at a syntax error. The first argument bounds the depth of the calls, so that the
  recursion is structural; \<open>JSON_parse\<close> starts with twice the length of the text plus one,
  which is enough for every text (lemma \<open>JSON_parse_any_fuel\<close>).
\<close>

fun parse_value :: "nat \<Rightarrow> jsstring \<Rightarrow> (json \<times> jsstring) option"
  and parse_elements :: "nat \<Rightarrow> jsstring \<Rightarrow> (json list \<times> jsstring) option"
  and parse_members :: "nat \<Rightarrow> jsstring \<Rightarrow> ((jsstring \<times> json) list \<times> jsstring) option"
where
  "parse_value 0 s = None"
| "parse_value (Suc n) s =
     (case s of
        [] \<Rightarrow> None
      | c # cs \<Rightarrow>
          if c = 0x22 then
            (case parse_chars cs of None \<Rightarrow> None | Some (str, r) \<Rightarrow> Some (JStr str, r))
          else if c = 0x5B then
            (case skip_ws cs of
               [] \<Rightarrow> None
             | d # r \<Rightarrow>
                 if d = 0x5D then Some (JArr [], r)
                 else (case parse_elements n (d # r) of
                         None \<Rightarrow> None
                       | Some (vs, r') \<Rightarrow> Some (JArr vs, r')))
          else if c = 0x7B then
            (case skip_ws cs of
               [] \<Rightarrow> None
             | d # r \<Rightarrow>
                 if d = 0x7D then Some (JObj [], r)
                 else (case parse_members n (d # r) of
                         None \<Rightarrow> None
                       | Some (ms, r') \<Rightarrow> Some (JObj ms, r')))
          else if take 4 s = ascii ''true'' then Some (JBool True, drop 4 s)
          else if take 5 s = ascii ''false'' then Some (JBool False, drop 5 s)
          else if take 4 s = ascii ''null'' then Some (JNull, drop 4 s)
          else (case parse_number s of
                  None \<Rightarrow> None
                | Some (lit, r) \<Rightarrow> Some (JNum lit, r)))"
| "parse_elements 0 s = None"
| "parse_elements (Suc n) s =
     (case parse_value n s of
        None \<Rightarrow> None
      | Some (v, r) \<Rightarrow>
          (case skip_ws r of
             [] \<Rightarrow> None
           | d # r' \<Rightarrow>
               if d = 0x5D then Some ([v], r')
               else if d = 0x2C then
                 (case parse_elements n (skip_ws r') of
                    None \<Rightarrow> None
                  | Some (vs, r'') \<Rightarrow> Some (v # vs, r''))
               else None))"
| "parse_members 0 s = None"
| "parse_members (Suc n) s =
     (case s of
        [] \<Rightarrow> None
      | q # cs \<Rightarrow>
          if q \<noteq> 0x22 then None
          else
            (case parse_chars cs of
               None \<Rightarrow> None
             | Some (k, r) \<Rightarrow>
                 (case skip_ws r of
                    [] \<Rightarrow> None
                  | colon # r1 \<Rightarrow>
                      if colon \<noteq> 0x3A then None
                      else
                        (case parse_value n (skip_ws r1) of
                           None \<Rightarrow> None
                         | Some (v, r2) \<Rightarrow>
                             (case skip_ws r2 of
                                [] \<Rightarrow> None
                              | d # r3 \<Rightarrow>
                                  if d = 0x7D then Some ([(k, v)], r3)
                                  else if d = 0x2C then
                                    (case parse_members n (skip_ws r3) of
                                       None \<Rightarrow> None
                                     | Some (ms, r4) \<Rightarrow> Some ((k, v) # ms, r4))
                                  else None)))))"

text \<open>\<^verbatim>\<open>JSON.parse(s)\<close>: one value with white space around it and nothing else; \<open>None\<close>
  is the \<^verbatim>\<open>SyntaxError\<close> the runtime throws.\<close>

definition JSON_parse :: "jsstring \<Rightarrow> json option" where
  "JSON_parse s =
     (case parse_value (2 * length s + 1) (skip_ws s) of
        None \<Rightarrow> None
      | Some (v, r) \<Rightarrow> if skip_ws r = [] then Some v else None)"

section \<open>History store\<close>

record history_item =
  timestamp :: jsstring
  requirements :: jsstring
  code :: jsstring

subsection \<open>The persisted form\<close>

text \<open>\<^verbatim>\<open>JSON.stringify\<close> of the history, an array of objects with three string
  properties: no white space, the properties in the order the object literal of
  \<^verbatim>\<open>saveToHistory\<close> lists them.\<close>

definition stringify_item :: "history_item \<Rightarrow> jsstring" where
  "stringify_item e =
     [0x7B] @ QuoteJSONString (ascii ''timestamp'') @ [0x3A] @ QuoteJSONString (timestamp e)
     @ [0x2C] @ QuoteJSONString (ascii ''requirements'') @ [0x3A] @ QuoteJSONString (requirements e)
     @ [0x2C] @ QuoteJSONString (ascii ''code'') @ [0x3A] @ QuoteJSONString (code e)
     @ [0x7D]"

fun stringify_items :: "history_item list \<Rightarrow> jsstring" where
  "stringify_items [] = []"
| "stringify_items [e] = stringify_item e"
| "stringify_items (e # es) = stringify_item e @ [0x2C] @ stringify_items es"

definition JSON_stringify :: "history_item list \<Rightarrow> jsstring" where
  "JSON_stringify h = [0x5B] @ stringify_items h @ [0x5D]"

text \<open>
  The state variable \<^verbatim>\<open>history\<close> is annotated as an array of objects with the three
  string properties \<^verbatim>\<open>timestamp\<close>, \<^verbatim>\<open>requirements\<close> and \<^verbatim>\<open>code\<close>. \<open>item_of_json\<close> and
  \<open>log_of_json\<close> read a parsed value at that type: an object that has the three
  properties, each a string, whatever the order of its keys and whatever other properties
  it has, and an array of such objects. \<open>property\<close> is the value an object has under a
  key: of the members with that key, the last one. Of each object the history in memory
  keeps the three properties (the runtime keeps the object as it was parsed, which shows
  only in the order of keys and the other properties that a later \<^verbatim>\<open>JSON.stringify\<close>
  writes). \<open>json_of_item\<close> is the value an entry is written as.
\<close>

definition json_of_item :: "history_item \<Rightarrow> json" where
  "json_of_item e =
     JObj [(ascii ''timestamp'', JStr (timestamp e)),
           (ascii ''requirements'', JStr (requirements e)),
           (ascii ''code'', JStr (code e))]"

fun property :: "jsstring \<Rightarrow> (jsstring \<times> json) list \<Rightarrow> json option" where
  "property k [] = None"
| "property k ((k', v) # ms) =
     (case property k ms of
        Some v' \<Rightarrow> Some v'
      | None \<Rightarrow> if k' = k then Some v else None)"

definition item_of_json :: "json \<Rightarrow> history_item option" where
  "item_of_json v =
     (case v of
        JObj ms \<Rightarrow>
          (case (property (ascii ''timestamp'') ms, property (ascii ''requirements'') ms,
                 property (ascii ''code'') ms) of
             (Some (JStr t), Some (JStr r), Some (JStr c)) \<Rightarrow>
               Some \<lparr> timestamp = t, requirements = r, code = c \<rparr>
           | _ \<Rightarrow> None)
      | _ \<Rightarrow> None)"

fun items_of_json :: "json list \<Rightarrow> history_item list option" where
  "items_of_json [] = Some []"
| "items_of_json (v # vs) =
     (case item_of_json v of
        None \<Rightarrow> None
      | Some e \<Rightarrow> (case items_of_json vs of None \<Rightarrow> None | Some es \<Rightarrow> Some (e # es)))"

definition log_of_json :: "json \<Rightarrow> history_item list option" where
  "log_of_json v = (case v of JArr vs \<Rightarrow> items_of_json vs | _ \<Rightarrow> None)"

subsection \<open>The application state\<close>

record generation_request =
  spec :: openapi_spec
  test_type :: generation_mode

text \<open>A call of \<^verbatim>\<open>handleGenerate\<close> that waits for its \<^verbatim>\<open>fetch\<close>: the request it sent and
  what its closure holds, the trimmed text and the \<^verbatim>\<open>history\<close> of the render it was
  started in.\<close>

record pending_call =
  call_text :: jsstring
  call_history :: "history_item list"
  call_request :: generation_request

text \<open>The component's state variables, the entry \<^verbatim>\<open>testops_history\<close> of
  \<^verbatim>\<open>localStorage\<close> (\<open>None\<close> when there is none), and the calls that wait.\<close>

record app_state =
  input :: jsstring
  output_text :: jsstring
  loading :: bool
  history :: "history_item list"
  stored :: "jsstring option"
  pending :: "pending_call list"

text \<open>The text the output area shows at the start, in Russian: ``the Python code in the
  format Allure TestOps as Code will appear here''.\<close>

definition msg_placeholder :: jsstring where
  "msg_placeholder =
     [0x0417, 0x0434, 0x0435, 0x0441, 0x044C, 0x0020, 0x043F, 0x043E, 0x044F, 0x0432, 0x0438,
      0x0442, 0x0441, 0x044F, 0x0020, 0x0050, 0x0079, 0x0074, 0x0068, 0x006F, 0x006E, 0x002D,
      0x043A, 0x043E, 0x0434, 0x0020, 0x0432, 0x0020, 0x0444, 0x043E, 0x0440, 0x043C, 0x0430,
      0x0442, 0x0435, 0x0020, 0x0041, 0x006C, 0x006C, 0x0075, 0x0072, 0x0065, 0x0020, 0x0054,
      0x0065, 0x0073, 0x0074, 0x004F, 0x0070, 0x0073, 0x0020, 0x0061, 0x0073, 0x0020, 0x0043,
      0x006F, 0x0064, 0x0065]"

definition initial_state :: "jsstring option \<Rightarrow> app_state" where
  "initial_state persisted =
     \<lparr> input = [], output_text = msg_placeholder, loading = False, history = [],
       stored = persisted, pending = [] \<rparr>"

datatype js_error = SyntaxError | NotALog json

text \<open>
  The mount effect (lines 18 to 21), the store's \<^verbatim>\<open>load\<close>: \<^verbatim>\<open>getItem\<close>, a truthiness
  test (no entry and the empty string are falsy) and \<^verbatim>\<open>JSON.parse\<close>, which is not
  guarded: its \<^verbatim>\<open>SyntaxError\<close> leaves the effect. A text that parses to a value which is
  not a history is put in the state variable by the source as it is, against the
  annotation, and no error is raised; \<open>NotALog\<close> with that value stands for this outcome.
\<close>

definition load_history :: "app_state \<Rightarrow> js_error + app_state" where
  "load_history st =
     (case stored st of
        None \<Rightarrow> Inr st
      | Some savedHistory \<Rightarrow>
          if savedHistory = [] then Inr st
          else (case JSON_parse savedHistory of
                  None \<Rightarrow> Inl SyntaxError
                | Some v \<Rightarrow>
                    (case log_of_json v of
                       None \<Rightarrow> Inl (NotALog v)
                     | Some h \<Rightarrow> Inr (st\<lparr> history := h \<rparr>))))"

definition snippet :: "jsstring \<Rightarrow> jsstring" where
  "snippet c = substring0 c 500 @ (if length c > 500 then ellipsis else [])"

text \<open>
  \<^verbatim>\<open>saveToHistory\<close>, the store's \<^verbatim>\<open>record\<close>. \<open>captured\<close> is the \<^verbatim>\<open>history\<close> its closure
  holds and \<open>now\<close> the clock reading \<^verbatim>\<open>new Date().toISOString()\<close>. \<^verbatim>\<open>setItem\<close> is taken
  to succeed (the store has room).
\<close>

definition saveToHistory ::
  "history_item list \<Rightarrow> jsstring \<Rightarrow> jsstring \<Rightarrow> jsstring \<Rightarrow> app_state \<Rightarrow> app_state" where
  "saveToHistory captured now reqs c st =
     (let newHistoryItem = \<lparr> timestamp = now, requirements = reqs, code = snippet c \<rparr>;
          updatedHistory = newHistoryItem # take 9 captured
      in st\<lparr> history := updatedHistory, stored := Some (JSON_stringify updatedHistory) \<rparr>)"

definition clearHistory :: "app_state \<Rightarrow> app_state" where
  "clearHistory st = st\<lparr> history := [], stored := None \<rparr>"

text \<open>
  The invariant of the store: the history in memory has at most 10 entries, and the
  persisted text, when there is one and it is not the empty string, parses to a history of
  at most 10 entries. The initial state satisfies it when nothing is persisted and when
  what is persisted was written by \<^verbatim>\<open>saveToHistory\<close>.
\<close>

definition store_ok :: "app_state \<Rightarrow> bool" where
  "store_ok st =
     (length (history st) \<le> 10 \<and>
      (case stored st of
         None \<Rightarrow> True
       | Some s \<Rightarrow>
           if s = [] then True
           else (case JSON_parse s of
                   None \<Rightarrow> False
                 | Some v \<Rightarrow>
                     (case log_of_json v of None \<Rightarrow> False | Some h \<Rightarrow> length h \<le> 10))))"

section \<open>Generation dispatcher: \<^verbatim>\<open>handleGenerate\<close>\<close>

text \<open>\<^verbatim>\<open>s.trim()\<close> removes the white space and line terminators of ECMA-262 from both
  ends.\<close>

definition is_js_space :: "unit16 \<Rightarrow> bool" where
  "is_js_space c =
     (c = 0x09 \<or> c = 0x0A \<or> c = 0x0B \<or> c = 0x0C \<or> c = 0x0D \<or> c = 0x20 \<or> c = 0xA0
      \<or> c = 0x1680 \<or> (0x2000 \<le> c \<and> c \<le> 0x200A) \<or> c = 0x2028 \<or> c = 0x2029
      \<or> c = 0x202F \<or> c = 0x205F \<or> c = 0x3000 \<or> c = 0xFEFF)"

definition trim :: "jsstring \<Rightarrow> jsstring" where
  "trim s = rev (dropWhile is_js_space (rev (dropWhile is_js_space s)))"

text \<open>A status code in a template literal: its decimal digits.\<close>

function show_nat :: "nat \<Rightarrow> jsstring" where
  "show_nat n = (if n < 10 then [0x30 + of_nat n]
                 else show_nat (n div 10) @ [0x30 + of_nat (n mod 10)])"
  by pat_completeness auto
termination
  by (relation "measure id") auto

declare show_nat.simps [simp del]

text \<open>The texts the source shows, in Russian: ``enter the requirements'', ``sending the
  request to the server...'', the label ``backend error: '', ``unknown error'', the label
  ``error: '' and, after two line feeds, ``wrong format of the requirement''.\<close>

definition msg_enter_requirements :: jsstring where
  "msg_enter_requirements =
     [0x0412, 0x0432, 0x0435, 0x0434, 0x0438, 0x0442, 0x0435, 0x0020, 0x043E, 0x043F, 0x0438,
      0x0441, 0x0430, 0x043D, 0x0438, 0x0435, 0x0020, 0x0442, 0x0440, 0x0435, 0x0431, 0x043E,
      0x0432, 0x0430, 0x043D, 0x0438, 0x0439]"

definition msg_sending :: jsstring where
  "msg_sending =
     [0x041E, 0x0442, 0x043F, 0x0440, 0x0430, 0x0432, 0x043A, 0x0430, 0x0020, 0x0437, 0x0430,
      0x043F, 0x0440, 0x043E, 0x0441, 0x0430, 0x0020, 0x043D, 0x0430, 0x0020, 0x0441, 0x0435,
      0x0440, 0x0432, 0x0435, 0x0440, 0x002E, 0x002E, 0x002E]"

definition msg_backend_error :: jsstring where
  "msg_backend_error =
     [0x041E, 0x0448, 0x0438, 0x0431, 0x043A, 0x0430, 0x0020, 0x0431, 0x0435, 0x043A, 0x0435,
      0x043D, 0x0434, 0x0430, 0x003A, 0x0020]"

definition msg_unknown_error :: jsstring where
  "msg_unknown_error =
     [0x041D, 0x0435, 0x0438, 0x0437, 0x0432, 0x0435, 0x0441, 0x0442, 0x043D, 0x0430, 0x044F,
      0x0020, 0x043E, 0x0448, 0x0438, 0x0431, 0x043A, 0x0430]"

definition msg_error :: jsstring where
  "msg_error = [0x041E, 0x0448, 0x0438, 0x0431, 0x043A, 0x0430, 0x003A, 0x0020]"

definition msg_bad_format :: jsstring where
  "msg_bad_format =
     [0x000A, 0x000A, 0x041D, 0x0435, 0x0432, 0x0435, 0x0440, 0x043D, 0x044B, 0x0439, 0x0020,
      0x0444, 0x043E, 0x0440, 0x043C, 0x0430, 0x0442, 0x0020, 0x0442, 0x0440, 0x0435, 0x0431,
      0x043E, 0x0432, 0x0430, 0x043D, 0x0438, 0x044F]"

text \<open>
  What the backend answers, by the interface the front end reads: \<^verbatim>\<open>status\<close>,
  \<^verbatim>\<open>code_text\<close> and \<^verbatim>\<open>message\<close>, each a string or absent. What \<^verbatim>\<open>fetch\<close> settles
  with: a rejection with its cause (the \<^verbatim>\<open>message\<close> of the error), or a response with its
  status code, its status text and its body, which \<^verbatim>\<open>response.json()\<close> either fails to
  parse (with a cause) or parses to the data.
\<close>

record response_data =
  status :: "jsstring option"
  code_text :: "jsstring option"
  message :: "jsstring option"

datatype response_body = Unparseable jsstring | Parsed response_data

datatype fetch_result = Rejected jsstring | Response nat jsstring response_body

text \<open>The part of \<^verbatim>\<open>handleGenerate\<close> before the \<^verbatim>\<open>await\<close>: the empty text is refused,
  otherwise the busy flag is set and the request is sent.\<close>

definition handleGenerate_start :: "app_state \<Rightarrow> app_state" where
  "handleGenerate_start st =
     (let text = trim (input st)
      in if text = [] then st\<lparr> output_text := msg_enter_requirements \<rparr>
         else st\<lparr> loading := True,
                  output_text := msg_sending,
                  pending := pending st
                    @ [\<lparr> call_text = text, call_history = history st,
                         call_request = \<lparr> spec = createOpenAPIFromText text,
                                          test_type = getTestType text \<rparr> \<rparr>] \<rparr>)"

datatype thrown = Thrown jsstring

text \<open>
  The rest of the \<^verbatim>\<open>try\<close> block, once \<^verbatim>\<open>fetch\<close> has settled with \<open>res\<close>. \<open>Inl\<close> is an error
  thrown inside the block, with its \<^verbatim>\<open>message\<close>. \<open>engine_msg\<close> is the message the engine
  gives the \<^verbatim>\<open>TypeError\<close> of \<^verbatim>\<open>code.substring\<close> when \<^verbatim>\<open>code_text\<close> is absent, \<open>now\<close> the
  clock reading.
\<close>

definition try_block ::
  "jsstring \<Rightarrow> jsstring \<Rightarrow> pending_call \<Rightarrow> fetch_result \<Rightarrow> app_state \<Rightarrow> thrown + app_state" where
  "try_block engine_msg now call res st =
     (case res of
        Rejected cause \<Rightarrow> Inl (Thrown cause)
      | Response code_no statusText body \<Rightarrow>
          if \<not> (200 \<le> code_no \<and> code_no \<le> 299) then
            Inl (Thrown (ascii ''HTTP '' @ show_nat code_no @ ascii '': '' @ statusText))
          else
            (case body of
               Unparseable cause \<Rightarrow> Inl (Thrown cause)
             | Parsed data \<Rightarrow>
                 if status data = Some (ascii ''success'') then
                   (case code_text data of
                      None \<Rightarrow> Inl (Thrown engine_msg)
                    | Some c \<Rightarrow>
                        Inr (saveToHistory (call_history call) now (call_text call) c
                               (st\<lparr> output_text := c \<rparr>)))
                 else
                   Inr (st\<lparr> output_text := msg_backend_error
                               @ (case message data of
                                    None \<Rightarrow> msg_unknown_error
                                  | Some m \<Rightarrow> if m = [] then msg_unknown_error else m) \<rparr>)))"

text \<open>The \<^verbatim>\<open>catch\<close> and \<^verbatim>\<open>finally\<close> blocks around it.\<close>

definition handleGenerate_resume ::
  "jsstring \<Rightarrow> jsstring \<Rightarrow> pending_call \<Rightarrow> fetch_result \<Rightarrow> app_state \<Rightarrow> app_state" where
  "handleGenerate_resume engine_msg now call res st =
     (case try_block engine_msg now call res st of
        Inl (Thrown m) \<Rightarrow> st\<lparr> output_text := msg_error @ m @ msg_bad_format, loading := False \<rparr>
      | Inr st' \<Rightarrow> st'\<lparr> loading := False \<rparr>)"

text \<open>
  The triggers. The button carries \<^verbatim>\<open>disabled={loading}\<close>: while the flag is set the
  browser delivers no click. The \<^verbatim>\<open>onKeyDown\<close> handler of the text area tests the key and
  the modifiers only. When the \<open>i\<close>-th waiting call's \<^verbatim>\<open>fetch\<close> settles, that call resumes.
\<close>

definition onClick_generate :: "app_state \<Rightarrow> app_state" where
  "onClick_generate st = (if loading st then st else handleGenerate_start st)"

definition onKeyDown :: "jsstring \<Rightarrow> bool \<Rightarrow> bool \<Rightarrow> app_state \<Rightarrow> app_state" where
  "onKeyDown key ctrlKey metaKey st =
     (if key = ascii ''Enter'' \<and> (ctrlKey \<or> metaKey) then handleGenerate_start st else st)"

definition settle ::
  "jsstring \<Rightarrow> jsstring \<Rightarrow> nat \<Rightarrow> fetch_result \<Rightarrow> app_state \<Rightarrow> app_state" where
  "settle engine_msg now i res st =
     (if i < length (pending st)
      then handleGenerate_resume engine_msg now (pending st ! i) res
             (st\<lparr> pending := take i (pending st) @ drop (Suc i) (pending st) \<rparr>)
      else st)"

text \<open>\<^verbatim>\<open>handleClear\<close> and \<^verbatim>\<open>loadFromHistory\<close> (the focus they set is not part of the
  state).\<close>

definition handleClear :: "app_state \<Rightarrow> app_state" where
  "handleClear st = st\<lparr> input := [], output_text := msg_placeholder \<rparr>"

definition loadFromHistory :: "history_item \<Rightarrow> app_state \<Rightarrow> app_state" where
  "loadFromHistory item st = st\<lparr> input := requirements item, output_text := code item \<rparr>"

section \<open>The component as a machine\<close>

text \<open>
  What can happen to the component: the text area changes, the generate button is clicked,
  a key goes down in the text area, the \<^verbatim>\<open>fetch\<close> of the \<open>i\<close>-th waiting call settles (with
  the clock reading at that moment), the mount effect runs (the store's load), the history
  is cleared, the clear button is clicked, the \<open>i\<close>-th entry of the history is clicked.
  A record of the store is a \<open>Settle\<close> with a successful answer: \<^verbatim>\<open>saveToHistory\<close> then runs
  with the history the call's closure holds, which is the history of the moment the call
  started. The first argument of \<open>app_step\<close> is the engine's message for a \<^verbatim>\<open>TypeError\<close>.
\<close>

datatype app_event =
    Change jsstring
  | ClickGenerate
  | KeyDown jsstring bool bool
  | Settle nat fetch_result jsstring
  | Load
  | ClearHistory
  | ClickClear
  | ClickEntry nat

fun app_step :: "jsstring \<Rightarrow> app_event \<Rightarrow> app_state \<Rightarrow> js_error + app_state" where
  "app_step em (Change v) st = Inr (st\<lparr> input := v \<rparr>)"
| "app_step em ClickGenerate st = Inr (onClick_generate st)"
| "app_step em (KeyDown key ctrlKey metaKey) st = Inr (onKeyDown key ctrlKey metaKey st)"
| "app_step em (Settle i res now) st = Inr (settle em now i res st)"
| "app_step em Load st = load_history st"
| "app_step em ClearHistory st = Inr (clearHistory st)"
| "app_step em ClickClear st = Inr (handleClear st)"
| "app_step em (ClickEntry i) st =
     Inr (if i < length (history st) then loadFromHistory (history st ! i) st else st)"

fun app_run :: "jsstring \<Rightarrow> app_event list \<Rightarrow> app_state \<Rightarrow> js_error + app_state" where
  "app_run em [] st = Inr st"
| "app_run em (x # xs) st =
     (case app_step em x st of Inl e \<Rightarrow> Inl e | Inr st' \<Rightarrow> app_run em xs st')"

text \<open>The timestamps of the history a run ends with, newest first.\<close>

definition timestamps_of :: "js_error + app_state \<Rightarrow> jsstring list option" where
  "timestamps_of res =
     (case res of Inl e \<Rightarrow> None | Inr st \<Rightarrow> Some (map timestamp (history st)))"

section \<open>Inputs of the examples\<close>




definition long_text :: jsstring where
  "long_text = ascii ''Create test cases for the VM API''"

text \<open>A state with one call waiting, reached from the initial state by typing a requirement
  and starting a generation; and two answers of the backend that report a failure, one
  with a message and one with an empty message.\<close>

definition busy_state :: app_state where
  "busy_state =
     handleGenerate_start ((initial_state None)\<lparr> input := ascii ''Rebuild the VM'' \<rparr>)"

definition failed_data :: response_data where
  "failed_data = \<lparr> status = Some (ascii ''error''), code_text = None,
                   message = Some (ascii ''model unavailable'') \<rparr>"

definition empty_message_data :: response_data where
  "empty_message_data =
     \<lparr> status = Some (ascii ''error''), code_text = None, message = Some [] \<rparr>"

text \<open>A persisted text that is cut off after its first character.\<close>

definition corrupt_text :: jsstring where
  "corrupt_text = ascii ''[''"

text \<open>A persisted history of one entry whose keys stand in another order than
  \<^verbatim>\<open>saveToHistory\<close> writes them, and a persisted text that parses to a number.\<close>

definition reordered_text :: jsstring where
  "reordered_text =
     [0x5B, 0x7B] @ QuoteJSONString (ascii ''code'') @ [0x3A] @ QuoteJSONString (ascii ''pass'')
     @ [0x2C] @ QuoteJSONString (ascii ''requirements'') @ [0x3A]
     @ QuoteJSONString (ascii ''Rebuild the VM'')
     @ [0x2C] @ QuoteJSONString (ascii ''timestamp'') @ [0x3A] @ QuoteJSONString (ascii ''01'')
     @ [0x7D, 0x5D]"

definition reordered_item :: history_item where
  "reordered_item =
     \<lparr> timestamp = ascii ''01'', requirements = ascii ''Rebuild the VM'',
       code = ascii ''pass'' \<rparr>"

definition number_text :: jsstring where
  "number_text = ascii ''42''"

text \<open>
  Two runs from the initial state, each with eleven generations of the same requirement
  that the backend answers with success at the clock readings \<^verbatim>\<open>01\<close> to \<^verbatim>\<open>11\<close>. In the
  first the keyboard shortcut is pressed eleven times before the first answer arrives; in
  the second each generation is started after the answer to the one before.
\<close>

definition success :: "jsstring \<Rightarrow> fetch_result" where
  "success c =
     Response 200 (ascii ''OK'')
       (Parsed \<lparr> status = Some (ascii ''success''), code_text = Some c, message = None \<rparr>)"

definition ctrl_enter :: app_event where
  "ctrl_enter = KeyDown (ascii ''Enter'') True False"

definition answer :: "string \<Rightarrow> app_event" where
  "answer t = Settle 0 (success (ascii ''def test(): pass'')) (ascii t)"

definition stamps :: "string list" where
  "stamps = [''01'', ''02'', ''03'', ''04'', ''05'', ''06'', ''07'', ''08'', ''09'', ''10'', ''11'']"

definition overlapping_run :: "app_event list" where
  "overlapping_run =
     Change (ascii ''Rebuild the VM'') # replicate 11 ctrl_enter @ map answer stamps"

definition sequential_run :: "app_event list" where
  "sequential_run =
     Change (ascii ''Rebuild the VM'') # concat (map (\<lambda>t. [ctrl_enter, answer t]) stamps)"

section \<open>Properties of the synthesizer and the classifier\<close>



lemma simple_lower_basic_latin:
  "p < 192 \<Longrightarrow> simple_lower p = (if 65 \<le> p \<and> p \<le> 90 then p + 32 else p)"
  by (simp add: simple_lower_def lower_runs_def)
























text \<open>The sigma: \<^verbatim>\<open>A\<close> then a capital sigma gives the final small sigma, and the other
  small sigma when a letter follows.\<close>

lemma cased_letters:
  "cased 0x41" "\<not> case_ignorable 0x41" "cased 0x42" "\<not> case_ignorable 0x42"
  by (simp_all add: cased_def case_ignorable_def cased_ranges_def ignorable_ranges_def)

lemma toLowerCase_sigma:
  "toLowerCase [0x41, 0x3A3] = [0x61, 0x3C2]"
  "toLowerCase [0x41, 0x3A3, 0x42] = [0x61, 0x3C3, 0x62]"
  by (simp_all add: toLowerCase_def is_high_surrogate_def is_low_surrogate_def utf16_def
      simple_lower_basic_latin final_sigma_def cased_next_def cased_letters)



text \<open>
  Claim C8. The \<^verbatim>\<open>description\<close> of the synthesized specification is the text it was built
  from, unchanged; this holds for every text, the non-empty ones included.
\<close>

theorem description_verbatim: "description (info (createOpenAPIFromText text)) = text"
  by (simp add: createOpenAPIFromText_def)

lemma length_title_prefix: "length title_prefix = 10"
  by (simp add: title_prefix_def ascii_def)

lemma length_ellipsis: "length ellipsis = 3"
  by (simp add: ellipsis_def ascii_def)

text \<open>
  Claim C1, as amended. The title is the label \<^verbatim>\<open>TestOps - \<close> (10 characters), then the
  first 30 characters of the text, then the marker \<^verbatim>\<open>...\<close> when the text is longer than
  30 characters. So the title never exceeds 43 characters; for a text longer than 30
  characters it has 43, ends with the marker, and its characters 11 to 40 are the first 30
  of the text; for a text of 30 characters or fewer it is the label followed by the text,
  with no marker appended.
\<close>

theorem title_shape:
  "title (info (createOpenAPIFromText text))
     = ascii ''TestOps - '' @ take 30 text @ (if 30 < length text then ascii ''...'' else [])
   \<and> length (title (info (createOpenAPIFromText text))) \<le> 43
   \<and> (30 < length text \<longrightarrow>
        length (title (info (createOpenAPIFromText text))) = 43
        \<and> drop 40 (title (info (createOpenAPIFromText text))) = ascii ''...''
        \<and> take 30 (drop 10 (title (info (createOpenAPIFromText text)))) = take 30 text)
   \<and> (length text \<le> 30 \<longrightarrow>
        title (info (createOpenAPIFromText text)) = ascii ''TestOps - '' @ text)"
  using length_title_prefix length_ellipsis
  by (simp add: createOpenAPIFromText_def substring0_def title_prefix_def ellipsis_def)

text \<open>The amended claim at a text of 32 characters and at one of 6.\<close>

theorem title_shape_witness:
  "30 < length long_text
   \<and> length (title (info (createOpenAPIFromText long_text))) = 43
   \<and> drop 40 (title (info (createOpenAPIFromText long_text))) = ascii ''...''
   \<and> take 30 (drop 10 (title (info (createOpenAPIFromText long_text)))) = take 30 long_text
   \<and> length (ascii ''VM API'') \<le> 30
   \<and> title (info (createOpenAPIFromText (ascii ''VM API'')))
       = ascii ''TestOps - '' @ ascii ''VM API''"
proof -
  have a: "30 < length long_text"
    by (simp add: long_text_def ascii_def)
  have b: "length (ascii ''VM API'') \<le> 30"
    by (simp add: ascii_def)
  from a title_shape [of long_text]
  have long: "length (title (info (createOpenAPIFromText long_text))) = 43
      \<and> drop 40 (title (info (createOpenAPIFromText long_text))) = ascii ''...''
      \<and> take 30 (drop 10 (title (info (createOpenAPIFromText long_text)))) = take 30 long_text"
    by blast
  from b title_shape [of "ascii ''VM API''"]
  have short: "title (info (createOpenAPIFromText (ascii ''VM API'')))
      = ascii ''TestOps - '' @ ascii ''VM API''"
    by blast
  from a b long short show ?thesis by blast
qed

text \<open>The claim as the specification states it fails at the text of 32 characters: the
  title has more than 33 characters, and its first 30 are not the first 30 of the text.\<close>

theorem title_counterexample:
  "30 < length long_text
   \<and> \<not> length (title (info (createOpenAPIFromText long_text))) \<le> 33
   \<and> take 30 (title (info (createOpenAPIFromText long_text))) \<noteq> take 30 long_text"
  by (simp add: createOpenAPIFromText_def substring0_def title_prefix_def ellipsis_def
      long_text_def ascii_def)

section \<open>Properties of the dispatcher\<close>

lemma trim_example: "trim (ascii ''Rebuild the VM'') = ascii ''Rebuild the VM''"
  by (simp add: trim_def ascii_def is_js_space_def)

lemma busy_state_eq:
  "busy_state = (initial_state None)
     \<lparr> input := ascii ''Rebuild the VM'', loading := True, output_text := msg_sending,
       pending := [\<lparr> call_text = ascii ''Rebuild the VM'', call_history = [],
                     call_request = \<lparr> spec = createOpenAPIFromText (ascii ''Rebuild the VM''),
                                      test_type = getTestType (ascii ''Rebuild the VM'') \<rparr> \<rparr>] \<rparr>"
  by (simp add: busy_state_def handleGenerate_start_def trim_example initial_state_def Let_def)
     (simp add: ascii_def)

text \<open>The button is gated by the flag, and every result clears the flag.\<close>

lemma click_gated: "loading st \<Longrightarrow> onClick_generate st = st"
  by (simp add: onClick_generate_def)

lemma settle_idle: "i < length (pending st) \<Longrightarrow> \<not> loading (settle em now i res st)"
  by (auto simp: settle_def handleGenerate_resume_def split: sum.splits thrown.splits)

text \<open>
  Claim C4. In the state \<open>busy_state\<close> the flag is set and one call waits. A click on the
  button starts nothing, but the keyboard shortcut (Enter with the control key) starts a
  second call while the first one waits: the \<^verbatim>\<open>onKeyDown\<close> handler does not read the flag
  the button is disabled by.
\<close>

theorem shortcut_not_gated:
  "loading busy_state
   \<and> length (pending busy_state) = 1
   \<and> onClick_generate busy_state = busy_state
   \<and> length (pending (onKeyDown (ascii ''Enter'') True False busy_state)) = 2"
  apply (simp add: busy_state_eq onClick_generate_def onKeyDown_def handleGenerate_start_def
      trim_example Let_def)
  apply (simp add: ascii_def)
  done

text \<open>
  Claim C5, as amended. When the response is received with a success code and its
  \<^verbatim>\<open>status\<close> is not \<^verbatim>\<open>success\<close>, the text shown is the label ``backend error: '' followed
  by the backend's \<^verbatim>\<open>message\<close> when it is present and not empty, and by ``unknown error''
  when it is absent or empty; the flag is cleared, and the history and its persisted form
  are as before.
\<close>

theorem backend_failure:
  assumes "200 \<le> c" and "c \<le> 299" and "status data \<noteq> Some (ascii ''success'')"
  shows "handleGenerate_resume em now call (Response c txt (Parsed data)) st
           = st\<lparr> output_text := msg_backend_error
                     @ (case message data of
                          None \<Rightarrow> msg_unknown_error
                        | Some m \<Rightarrow> if m = [] then msg_unknown_error else m),
                   loading := False \<rparr>
         \<and> history (handleGenerate_resume em now call (Response c txt (Parsed data)) st)
             = history st
         \<and> stored (handleGenerate_resume em now call (Response c txt (Parsed data)) st)
             = stored st"
  using assms by (simp add: handleGenerate_resume_def try_block_def)

text \<open>The amended claim at a response 200 whose data reports an error with a message.\<close>

theorem backend_failure_witness:
  "(200::nat) \<le> 200 \<and> (200::nat) \<le> 299 \<and> status failed_data \<noteq> Some (ascii ''success'')
   \<and> output_text (handleGenerate_resume [] [] (hd (pending busy_state))
         (Response 200 (ascii ''OK'') (Parsed failed_data)) busy_state)
       = msg_backend_error @ ascii ''model unavailable''
   \<and> history (handleGenerate_resume [] [] (hd (pending busy_state))
         (Response 200 (ascii ''OK'') (Parsed failed_data)) busy_state) = []
   \<and> stored (handleGenerate_resume [] [] (hd (pending busy_state))
         (Response 200 (ascii ''OK'') (Parsed failed_data)) busy_state) = None"
proof -
  have s: "status failed_data \<noteq> Some (ascii ''success'')"
    by (simp add: failed_data_def ascii_def)
  have m: "message failed_data = Some (ascii ''model unavailable'')"
      "ascii ''model unavailable'' \<noteq> []"
    by (simp_all add: failed_data_def ascii_def)
  have h: "history busy_state = []" "stored busy_state = None"
    by (simp_all add: busy_state_eq initial_state_def)
  from backend_failure [of 200 failed_data "[]" "[]" "hd (pending busy_state)" "ascii ''OK''" busy_state] s m h
  show ?thesis by simp
qed

text \<open>The claim as the specification states it fails at a response whose \<^verbatim>\<open>message\<close> is
  present and empty: the text shown ends with the fallback, so it is neither the provided
  message nor the label followed by it.\<close>

theorem backend_failure_counterexample:
  "status empty_message_data \<noteq> Some (ascii ''success'')
   \<and> message empty_message_data = Some []
   \<and> output_text (handleGenerate_resume [] [] (hd (pending busy_state))
         (Response 200 (ascii ''OK'') (Parsed empty_message_data)) busy_state)
       = msg_backend_error @ msg_unknown_error
   \<and> output_text (handleGenerate_resume [] [] (hd (pending busy_state))
         (Response 200 (ascii ''OK'') (Parsed empty_message_data)) busy_state)
       \<noteq> msg_backend_error @ []
   \<and> output_text (handleGenerate_resume [] [] (hd (pending busy_state))
         (Response 200 (ascii ''OK'') (Parsed empty_message_data)) busy_state)
       \<noteq> []"
  by (simp add: handleGenerate_resume_def try_block_def empty_message_data_def
      msg_backend_error_def msg_unknown_error_def ascii_def)

lemma show_nat_503: "show_nat 503 = ascii ''503''"
  by (simp add: show_nat.simps [of 503] show_nat.simps [of 50] show_nat.simps [of 5] ascii_def)

text \<open>
  Claim C9. When \<^verbatim>\<open>fetch\<close> rejects, the error is thrown inside the \<^verbatim>\<open>try\<close> block and
  caught: the call ends in a state whose text is the label ``error: '', the cause and the
  fixed suffix. When the response has a status code outside 200 to 299, the same happens
  with the cause \<^verbatim>\<open>HTTP <code>: <status text>\<close>. Whatever is thrown inside the block, the
  history and its persisted form are as before, no call is added to the waiting ones (no
  retry), and the flag is cleared.
\<close>

theorem transport_failure:
  "try_block em now call (Rejected cause) st = Inl (Thrown cause)
   \<and> handleGenerate_resume em now call (Rejected cause) st
       = st\<lparr> output_text := msg_error @ cause @ msg_bad_format, loading := False \<rparr>
   \<and> (\<not> (200 \<le> c \<and> c \<le> 299) \<longrightarrow>
        try_block em now call (Response c txt body) st
          = Inl (Thrown (ascii ''HTTP '' @ show_nat c @ ascii '': '' @ txt))
        \<and> handleGenerate_resume em now call (Response c txt body) st
            = st\<lparr> output_text := msg_error @ (ascii ''HTTP '' @ show_nat c @ ascii '': '' @ txt)
                                 @ msg_bad_format,
                    loading := False \<rparr>)
   \<and> (\<forall>res. (\<exists>m. try_block em now call res st = Inl (Thrown m)) \<longrightarrow>
        history (handleGenerate_resume em now call res st) = history st
        \<and> stored (handleGenerate_resume em now call res st) = stored st
        \<and> pending (handleGenerate_resume em now call res st) = pending st
        \<and> \<not> loading (handleGenerate_resume em now call res st))"
  by (auto simp add: handleGenerate_resume_def try_block_def)

text \<open>The claim at a response 503 received while one call waits.\<close>

theorem transport_failure_witness:
  "\<not> (200 \<le> (503::nat) \<and> (503::nat) \<le> 299)
   \<and> handleGenerate_resume [] [] (hd (pending busy_state))
        (Response 503 (ascii ''Service Unavailable'') (Unparseable [])) busy_state
       = busy_state\<lparr> output_text := msg_error @ ascii ''HTTP 503: Service Unavailable''
                                       @ msg_bad_format,
                      loading := False \<rparr>
   \<and> history (handleGenerate_resume [] [] (hd (pending busy_state))
        (Response 503 (ascii ''Service Unavailable'') (Unparseable [])) busy_state)
       = history busy_state
   \<and> \<not> loading (handleGenerate_resume [] [] (hd (pending busy_state))
        (Response 503 (ascii ''Service Unavailable'') (Unparseable [])) busy_state)"
proof -
  let ?call = "hd (pending busy_state)"
  let ?res = "Response 503 (ascii ''Service Unavailable'') (Unparseable [])"
  have bad: "\<not> (200 \<le> (503::nat) \<and> (503::nat) \<le> 299)" by simp
  have msg: "ascii ''HTTP '' @ show_nat 503 @ ascii '': '' @ ascii ''Service Unavailable''
      = ascii ''HTTP 503: Service Unavailable''"
    by (simp add: show_nat_503) (simp add: ascii_def)
  note t = transport_failure [of "[]" "[]" ?call "[]" busy_state 503
      "ascii ''Service Unavailable''" "Unparseable []"]
  from t bad have thrown: "try_block [] [] ?call ?res busy_state
      = Inl (Thrown (ascii ''HTTP '' @ show_nat 503 @ ascii '': ''
                       @ ascii ''Service Unavailable''))"
    by blast
  from t bad have out: "handleGenerate_resume [] [] ?call ?res busy_state
      = busy_state\<lparr> output_text := msg_error
            @ (ascii ''HTTP '' @ show_nat 503 @ ascii '': '' @ ascii ''Service Unavailable'')
            @ msg_bad_format, loading := False \<rparr>"
    by blast
  from t thrown
  have rest: "history (handleGenerate_resume [] [] ?call ?res busy_state) = history busy_state
      \<and> \<not> loading (handleGenerate_resume [] [] ?call ?res busy_state)"
    by blast
  from bad out rest show ?thesis unfolding msg by blast
qed

section \<open>The bound of the parser\<close>

text \<open>The parser reads at least one character for what it returns, and a bound of twice
  the number of characters read is enough to return it.\<close>

lemma skip_ws_length: "length (skip_ws s) \<le> length s"
  by (simp add: skip_ws_def length_dropWhile_le)

lemma cons_unit_length:
  "cons_unit u res = Some (t, r) \<Longrightarrow> \<exists>t'. res = Some (t', r)"
  by (auto simp: cons_unit_def split: option.splits)

lemma parse_chars_length: "parse_chars s = Some (t, r) \<Longrightarrow> length r < length s"
proof (induction s arbitrary: t rule: length_induct)
  case (1 s)
  show ?case
  proof (cases s)
    case Nil
    with 1 show ?thesis by simp
  next
    case (Cons c cs)
    with 1(2) show ?thesis
      using 1(1)
      by (auto simp: Cons split: if_splits list.splits option.splits dest!: cons_unit_length)
         (force+)
  qed
qed


lemma parse_exponent_length:
  "parse_exponent lit s = Some (l, r) \<Longrightarrow> length r \<le> length s"
  by (auto simp: parse_exponent_def Let_def split: list.splits if_splits
      intro: le_trans [OF length_dropWhile_le])

lemma parse_fraction_length:
  "parse_fraction lit s = Some (l, r) \<Longrightarrow> length r \<le> length s"
  by (auto simp: parse_fraction_def Let_def split: list.splits if_splits
      dest!: parse_exponent_length intro: le_trans [OF _ length_dropWhile_le] le_SucI)

lemma parse_number_length:
  "parse_number s = Some (l, r) \<Longrightarrow> length r < length s"
  by (auto simp: parse_number_def Let_def split: list.splits if_splits
      dest!: parse_fraction_length intro: le_trans [OF _ length_dropWhile_le] le_imp_less_Suc le_SucI)


lemma fuel_elements_step:
  assumes v: "\<And>s v r. parse_value n s = Some (v, r) \<Longrightarrow>
      length r < length s \<and> (\<forall>m. 2 * (length s - length r) \<le> Suc m \<longrightarrow> parse_value m s = Some (v, r))"
    and e: "\<And>s vs r. parse_elements n s = Some (vs, r) \<Longrightarrow>
      length r < length s \<and> (\<forall>m. 2 * (length s - length r) \<le> m \<longrightarrow> parse_elements m s = Some (vs, r))"
    and p: "parse_elements (Suc n) s = Some (vs, r)"
  shows "length r < length s \<and> (\<forall>m. 2 * (length s - length r) \<le> m \<longrightarrow> parse_elements m s = Some (vs, r))"
proof -
  from p obtain x r1 where pv: "parse_value n s = Some (x, r1)"
    by (auto split: option.splits)
  from p pv obtain d r2 where sk: "skip_ws r1 = d # r2"
    by (auto split: list.splits)
  from v [OF pv] have l1: "length r1 < length s"
      and f1: "\<And>m. 2 * (length s - length r1) \<le> Suc m \<Longrightarrow> parse_value m s = Some (x, r1)"
    by auto
  from sk skip_ws_length [of r1] have l2: "length r2 < length r1" by simp
  have l3: "length (skip_ws r2) \<le> length r2" by (rule skip_ws_length)
  consider (last) "d = 0x5D" "vs = [x]" "r = r2"
    | (more) vs' where "d = 0x2C" "parse_elements n (skip_ws r2) = Some (vs', r)" "vs = x # vs'"
    using p pv sk by (auto split: if_splits option.splits)
  then show ?thesis
  proof cases
    case last
    have "parse_elements m s = Some (vs, r)" if "2 * (length s - length r) \<le> m" for m
    proof -
      from that l1 l2 last obtain k where m: "m = Suc k" by (cases m) auto
      with that l1 l2 last have "2 * (length s - length r1) \<le> Suc k" by simp
      from f1 [OF this] sk last show ?thesis
        unfolding m by (simp del: parse_value.simps)
    qed
    with l1 l2 last show ?thesis by simp
  next
    case more
    from e [OF more(2)] have l4: "length r < length (skip_ws r2)"
      and f2: "\<And>m. 2 * (length (skip_ws r2) - length r) \<le> m \<Longrightarrow>
                 parse_elements m (skip_ws r2) = Some (vs', r)"
      by auto
    have "parse_elements m s = Some (vs, r)" if "2 * (length s - length r) \<le> m" for m
    proof -
      from that l1 l2 l3 l4 obtain k where m: "m = Suc k" by (cases m) auto
      with that l1 l2 l3 l4 have a: "2 * (length s - length r1) \<le> Suc k"
        and b: "2 * (length (skip_ws r2) - length r) \<le> k" by simp_all
      have "parse_elements (Suc k) s = Some (vs, r)"
        by (subst parse_elements.simps(2))
           (simp add: f1 [OF a] f2 [OF b] sk more
              del: parse_value.simps parse_elements.simps)
      then show ?thesis unfolding m .
    qed
    with l1 l2 l3 l4 show ?thesis by simp
  qed
qed


lemma fuel_members_step:
  assumes v: "\<And>s v r. parse_value n s = Some (v, r) \<Longrightarrow>
      length r < length s \<and> (\<forall>m. 2 * (length s - length r) \<le> Suc m \<longrightarrow> parse_value m s = Some (v, r))"
    and e: "\<And>s ms r. parse_members n s = Some (ms, r) \<Longrightarrow>
      length r < length s \<and> (\<forall>m. 2 * (length s - length r) \<le> m \<longrightarrow> parse_members m s = Some (ms, r))"
    and p: "parse_members (Suc n) s = Some (ms, r)"
  shows "length r < length s \<and> (\<forall>m. 2 * (length s - length r) \<le> m \<longrightarrow> parse_members m s = Some (ms, r))"
proof -
  from p obtain cs where s: "s = 0x22 # cs"
    by (cases s) (auto split: if_splits)
  from p s obtain k r0 where key: "parse_chars cs = Some (k, r0)"
    by (auto split: option.splits)
  from p s key obtain r1 where colon: "skip_ws r0 = 0x3A # r1"
    by (auto split: list.splits if_splits)
  from p s key colon obtain x r2 where pv: "parse_value n (skip_ws r1) = Some (x, r2)"
    by (auto split: option.splits)
  from p s key colon pv obtain d r3 where sk: "skip_ws r2 = d # r3"
    by (auto split: list.splits)
  from parse_chars_length [OF key] s have l0: "length r0 < length s" by simp
  from colon skip_ws_length [of r0] have l1: "length r1 < length r0" by simp
  have l1': "length (skip_ws r1) \<le> length r1" by (rule skip_ws_length)
  from v [OF pv] have l2: "length r2 < length (skip_ws r1)"
      and f1: "\<And>m. 2 * (length (skip_ws r1) - length r2) \<le> Suc m \<Longrightarrow>
                 parse_value m (skip_ws r1) = Some (x, r2)"
    by auto
  from sk skip_ws_length [of r2] have l3: "length r3 < length r2" by simp
  have l3': "length (skip_ws r3) \<le> length r3" by (rule skip_ws_length)
  consider (last) "d = 0x7D" "ms = [(k, x)]" "r = r3"
    | (more) ms' where "d = 0x2C" "parse_members n (skip_ws r3) = Some (ms', r)"
        "ms = (k, x) # ms'"
    using p s key colon pv sk by (auto split: if_splits option.splits)
  then show ?thesis
  proof cases
    case last
    have "parse_members m s = Some (ms, r)" if "2 * (length s - length r) \<le> m" for m
    proof -
      from that l0 l1 l1' l2 l3 last obtain j where m: "m = Suc j" by (cases m) auto
      with that l0 l1 l1' l2 l3 last have "2 * (length (skip_ws r1) - length r2) \<le> Suc j"
        by simp
      from f1 [OF this] s key colon sk last show ?thesis
        unfolding m by (simp del: parse_value.simps)
    qed
    with l0 l1 l1' l2 l3 last show ?thesis by simp
  next
    case more
    from e [OF more(2)] have l4: "length r < length (skip_ws r3)"
      and f2: "\<And>m. 2 * (length (skip_ws r3) - length r) \<le> m \<Longrightarrow>
                 parse_members m (skip_ws r3) = Some (ms', r)"
      by auto
    have "parse_members m s = Some (ms, r)" if "2 * (length s - length r) \<le> m" for m
    proof -
      from that l0 l1 l1' l2 l3 l3' l4 obtain j where m: "m = Suc j" by (cases m) auto
      with that l0 l1 l1' l2 l3 l3' l4
      have a: "2 * (length (skip_ws r1) - length r2) \<le> Suc j"
        and b: "2 * (length (skip_ws r3) - length r) \<le> j" by simp_all
      have "parse_members (Suc j) s = Some (ms, r)"
        by (subst parse_members.simps(2))
           (simp add: f1 [OF a] f2 [OF b] s key colon sk more
              del: parse_value.simps parse_members.simps)
      then show ?thesis unfolding m .
    qed
    with l0 l1 l1' l2 l3 l3' l4 show ?thesis by simp
  qed
qed


lemma parse_value_leaf:
  "c \<noteq> 0x5B \<Longrightarrow> c \<noteq> 0x7B \<Longrightarrow> parse_value (Suc a) (c # cs) = parse_value (Suc b) (c # cs)"
  by simp

lemma parse_value_leaf_length:
  assumes "c \<noteq> 0x5B" "c \<noteq> 0x7B" "parse_value (Suc n) (c # cs) = Some (v, r)"
  shows "length r < length (c # cs)"
  using assms
  by (auto split: if_splits option.splits dest!: parse_chars_length parse_number_length)

lemma fuel_value_step:
  assumes e: "\<And>s vs r. parse_elements n s = Some (vs, r) \<Longrightarrow>
      length r < length s \<and> (\<forall>m. 2 * (length s - length r) \<le> m \<longrightarrow> parse_elements m s = Some (vs, r))"
    and o: "\<And>s ms r. parse_members n s = Some (ms, r) \<Longrightarrow>
      length r < length s \<and> (\<forall>m. 2 * (length s - length r) \<le> m \<longrightarrow> parse_members m s = Some (ms, r))"
    and p: "parse_value (Suc n) s = Some (v, r)"
  shows "length r < length s \<and> (\<forall>m. 2 * (length s - length r) \<le> Suc m \<longrightarrow> parse_value m s = Some (v, r))"
proof -
  from p obtain c cs where s: "s = c # cs"
    by (cases s) auto
  consider (leaf) "c \<noteq> 0x5B" "c \<noteq> 0x7B"
    | (empty_array) r0 where "c = 0x5B" "skip_ws cs = 0x5D # r0" "v = JArr []" "r = r0"
    | (array) d r0 vs where "c = 0x5B" "skip_ws cs = d # r0" "d \<noteq> 0x5D"
        "parse_elements n (d # r0) = Some (vs, r)" "v = JArr vs"
    | (empty_object) r0 where "c = 0x7B" "skip_ws cs = 0x7D # r0" "v = JObj []" "r = r0"
    | (object) d r0 ms where "c = 0x7B" "skip_ws cs = d # r0" "d \<noteq> 0x7D"
        "parse_members n (d # r0) = Some (ms, r)" "v = JObj ms"
    using p s by (auto split: if_splits list.splits option.splits)
  then show ?thesis
  proof cases
    case leaf
    have l: "length r < length s"
      using parse_value_leaf_length [OF leaf] p s by simp
    have "parse_value m s = Some (v, r)" if "2 * (length s - length r) \<le> Suc m" for m
    proof -
      from that l obtain j where m: "m = Suc j" by (cases m) auto
      show ?thesis
        unfolding m s using parse_value_leaf [OF leaf, of j cs n] p s by simp
    qed
    with l show ?thesis by simp
  next
    case empty_array
    from empty_array(2) skip_ws_length [of cs] have l: "length r < length s"
      using s empty_array(4) by simp
    have "parse_value m s = Some (v, r)" if "2 * (length s - length r) \<le> Suc m" for m
    proof -
      from that l obtain j where m: "m = Suc j" by (cases m) auto
      show ?thesis unfolding m s using empty_array by simp
    qed
    with l show ?thesis by simp
  next
    case array
    from e [OF array(4)] have l0: "length r < length (d # r0)"
      and f: "\<And>m. 2 * (length (d # r0) - length r) \<le> m \<Longrightarrow>
                parse_elements m (d # r0) = Some (vs, r)"
      by auto
    from array(2) skip_ws_length [of cs] have l1: "length (d # r0) < length s"
      using s by simp
    have "parse_value m s = Some (v, r)" if "2 * (length s - length r) \<le> Suc m" for m
    proof -
      from that l0 l1 obtain j where m: "m = Suc j" by (cases m) auto
      with that l0 l1 have "2 * (length (d # r0) - length r) \<le> j" by simp
      from f [OF this] show ?thesis
        unfolding m s using array by (simp del: parse_elements.simps)
    qed
    with l0 l1 show ?thesis by simp
  next
    case empty_object
    from empty_object(2) skip_ws_length [of cs] have l: "length r < length s"
      using s empty_object(4) by simp
    have "parse_value m s = Some (v, r)" if "2 * (length s - length r) \<le> Suc m" for m
    proof -
      from that l obtain j where m: "m = Suc j" by (cases m) auto
      show ?thesis unfolding m s using empty_object by simp
    qed
    with l show ?thesis by simp
  next
    case object
    from o [OF object(4)] have l0: "length r < length (d # r0)"
      and f: "\<And>m. 2 * (length (d # r0) - length r) \<le> m \<Longrightarrow>
                parse_members m (d # r0) = Some (ms, r)"
      by auto
    from object(2) skip_ws_length [of cs] have l1: "length (d # r0) < length s"
      using s by simp
    have "parse_value m s = Some (v, r)" if "2 * (length s - length r) \<le> Suc m" for m
    proof -
      from that l0 l1 obtain j where m: "m = Suc j" by (cases m) auto
      with that l0 l1 have "2 * (length (d # r0) - length r) \<le> j" by simp
      from f [OF this] show ?thesis
        unfolding m s using object by (simp del: parse_members.simps)
    qed
    with l0 l1 show ?thesis by simp
  qed
qed

lemma fuel_enough:
  "(\<forall>s v r. parse_value n s = Some (v, r) \<longrightarrow>
      length r < length s \<and> (\<forall>m. 2 * (length s - length r) \<le> Suc m \<longrightarrow> parse_value m s = Some (v, r)))
   \<and> (\<forall>s vs r. parse_elements n s = Some (vs, r) \<longrightarrow>
      length r < length s \<and> (\<forall>m. 2 * (length s - length r) \<le> m \<longrightarrow> parse_elements m s = Some (vs, r)))
   \<and> (\<forall>s ms r. parse_members n s = Some (ms, r) \<longrightarrow>
      length r < length s \<and> (\<forall>m. 2 * (length s - length r) \<le> m \<longrightarrow> parse_members m s = Some (ms, r)))"
proof (induction n)
  case 0
  show ?case by simp
next
  case (Suc n)
  show ?case
  proof (intro conjI allI impI)
    fix s v r assume "parse_value (Suc n) s = Some (v, r)"
    with Suc fuel_value_step [of n s v r]
    have *: "length r < length s \<and> (\<forall>m. 2 * (length s - length r) \<le> Suc m \<longrightarrow> parse_value m s = Some (v, r))"
      by blast
    from * show "length r < length s" ..
    fix m assume "2 * (length s - length r) \<le> Suc m"
    with * show "parse_value m s = Some (v, r)" by blast
  next
    fix s vs r assume "parse_elements (Suc n) s = Some (vs, r)"
    with Suc fuel_elements_step [of n s vs r]
    have *: "length r < length s \<and> (\<forall>m. 2 * (length s - length r) \<le> m \<longrightarrow> parse_elements m s = Some (vs, r))"
      by blast
    from * show "length r < length s" ..
    fix m assume "2 * (length s - length r) \<le> m"
    with * show "parse_elements m s = Some (vs, r)" by blast
  next
    fix s ms r assume "parse_members (Suc n) s = Some (ms, r)"
    with Suc fuel_members_step [of n s ms r]
    have *: "length r < length s \<and> (\<forall>m. 2 * (length s - length r) \<le> m \<longrightarrow> parse_members m s = Some (ms, r))"
      by blast
    from * show "length r < length s" ..
    fix m assume "2 * (length s - length r) \<le> m"
    with * show "parse_members m s = Some (ms, r)" by blast
  qed
qed

text \<open>Whatever bound the parser is run with, what it reads is what \<open>JSON_parse\<close> reads: a
  \<open>None\<close> of \<open>JSON_parse\<close> is a syntax error of the text, not a bound that was too small.\<close>

lemma JSON_parse_any_fuel:
  assumes "parse_value n (skip_ws s) = Some (v, r)"
  shows "parse_value (2 * length s + 1) (skip_ws s) = Some (v, r)"
proof -
  from fuel_enough [of n] assms
  have "\<forall>m. 2 * (length (skip_ws s) - length r) \<le> Suc m \<longrightarrow> parse_value m (skip_ws s) = Some (v, r)"
    by blast
  moreover have "2 * (length (skip_ws s) - length r) \<le> Suc (2 * length s + 1)"
    using skip_ws_length [of s] by simp
  ultimately show ?thesis by blast
qed

section \<open>What is persisted is read back\<close>

text \<open>A code unit written as \<^verbatim>\<open>\uXXXX\<close> is read back: the four digits are the four
  nibbles of the unit.\<close>

lemma hex_value_hex_digit: "d < 16 \<Longrightarrow> hex_value (hex_digit d) = Some d"
proof -
  assume "d < 16"
  then have "d = 0 \<or> d = 1 \<or> d = 2 \<or> d = 3 \<or> d = 4 \<or> d = 5 \<or> d = 6 \<or> d = 7 \<or> d = 8
      \<or> d = 9 \<or> d = 10 \<or> d = 11 \<or> d = 12 \<or> d = 13 \<or> d = 14 \<or> d = 15" by arith
  then show ?thesis
    by (elim disjE) (simp_all add: hex_value_def hex_digit_def)
qed

lemma nibbles:
  "((n div 4096 * 16 + n div 256 mod 16) * 16 + n div 16 mod 16) * 16 + n mod 16 = (n::nat)"
proof -
  have a: "n div 256 = n div 16 div 16"
    using div_mult2_eq [of n 16 16] by simp
  have b: "n div 4096 = n div 16 div 16 div 16"
    using div_mult2_eq [of n 256 16] a by simp
  show ?thesis
    unfolding a b by (simp only: div_mult_mod_eq)
qed

lemma hex4_roundtrip:
  "hex4 (hex_digit (unat c div 4096)) (hex_digit (unat c div 256 mod 16))
        (hex_digit (unat c div 16 mod 16)) (hex_digit (unat c mod 16)) = Some c"
proof -
  have lt: "unat c < 65536" using unsigned_less [of c, where ?'a = nat] by simp
  then have a: "unat c div 4096 < 16" by simp
  have v: "hex_value (hex_digit (unat c div 4096)) = Some (unat c div 4096)"
      "hex_value (hex_digit (unat c div 256 mod 16)) = Some (unat c div 256 mod 16)"
      "hex_value (hex_digit (unat c div 16 mod 16)) = Some (unat c div 16 mod 16)"
      "hex_value (hex_digit (unat c mod 16)) = Some (unat c mod 16)"
    using a by (simp_all add: hex_value_hex_digit)
  show ?thesis
    unfolding hex4_def v by (simp only: prod.case option.case nibbles of_nat_unat ucast_id)
qed

lemma parse_chars_raw:
  "\<not> c < 0x20 \<Longrightarrow> c \<noteq> 0x22 \<Longrightarrow> c \<noteq> 0x5C \<Longrightarrow> parse_chars (c # r) = cons_unit c (parse_chars r)"
  by simp

lemma parse_chars_unicode_escape:
  "parse_chars (unicode_escape c @ r) = cons_unit c (parse_chars r)"
  by (simp add: unicode_escape_def Let_def hex4_roundtrip)


lemma parse_chars_escape_unit:
  "parse_chars (escape_unit c @ r) = cons_unit c (parse_chars r)"
proof (cases "c = 0x08 \<or> c = 0x09 \<or> c = 0x0A \<or> c = 0x0C \<or> c = 0x0D \<or> c = 0x22 \<or> c = 0x5C")
  case True
  then show ?thesis
    by (elim disjE) (simp_all add: escape_unit_def unescape_simple_def)
next
  case False
  then have ne: "c \<noteq> 0x08" "c \<noteq> 0x09" "c \<noteq> 0x0A" "c \<noteq> 0x0C" "c \<noteq> 0x0D" "c \<noteq> 0x22"
      "c \<noteq> 0x5C"
    by simp_all
  show ?thesis
  proof (cases "c < 0x20 \<or> is_high_surrogate c \<or> is_low_surrogate c")
    case True
    with ne have "escape_unit c = unicode_escape c"
      by (simp add: escape_unit_def)
    then show ?thesis by (simp only: parse_chars_unicode_escape)
  next
    case False
    with ne have "escape_unit c = [c]"
      by (simp add: escape_unit_def)
    moreover from False have "\<not> c < 0x20" by simp
    ultimately show ?thesis
      using ne by simp
  qed
qed

lemma surrogate_raw:
  "is_high_surrogate c \<or> is_low_surrogate c \<Longrightarrow> \<not> c < 0x20 \<and> c \<noteq> 0x22 \<and> c \<noteq> 0x5C"
  by (auto simp: is_high_surrogate_def is_low_surrogate_def word_le_nat_alt word_less_nat_alt)

lemma parse_chars_quote_body:
  "parse_chars (quote_body s @ 0x22 # r) = Some (s, r)"
proof (induction s rule: quote_body.induct)
  case 1
  show ?case by simp
next
  case (2 c)
  have "parse_chars (escape_unit c @ 0x22 # r) = cons_unit c (parse_chars (0x22 # r))"
    by (rule parse_chars_escape_unit)
  then show ?case by (simp add: cons_unit_def)
next
  case (3 c d cs)
  show ?case
  proof (cases "is_high_surrogate c \<and> is_low_surrogate d")
    case True
    then have c: "\<not> c < 0x20 \<and> c \<noteq> 0x22 \<and> c \<noteq> 0x5C" and d: "\<not> d < 0x20 \<and> d \<noteq> 0x22 \<and> d \<noteq> 0x5C"
      using surrogate_raw by blast+
    have q: "quote_body (c # d # cs) @ 0x22 # r = c # d # quote_body cs @ 0x22 # r"
      using True by simp
    have ih: "parse_chars (quote_body cs @ 0x22 # r) = Some (cs, r)"
      using 3(1) True by blast
    have "parse_chars (c # d # quote_body cs @ 0x22 # r)
        = cons_unit c (cons_unit d (parse_chars (quote_body cs @ 0x22 # r)))"
      using c d by simp
    then show ?thesis
      unfolding q ih by (simp add: cons_unit_def)
  next
    case False
    have q: "quote_body (c # d # cs) @ 0x22 # r = escape_unit c @ quote_body (d # cs) @ 0x22 # r"
      using False by auto
    have ih: "parse_chars (quote_body (d # cs) @ 0x22 # r) = Some (d # cs, r)"
      using 3(2) False by blast
    have "parse_chars (escape_unit c @ quote_body (d # cs) @ 0x22 # r)
        = cons_unit c (parse_chars (quote_body (d # cs) @ 0x22 # r))"
      by (rule parse_chars_escape_unit)
    then show ?thesis
      unfolding q ih by (simp add: cons_unit_def)
  qed
qed


lemma skip_ws_quote [simp]: "skip_ws (QuoteJSONString s @ r) = QuoteJSONString s @ r"
  by (simp add: skip_ws_def QuoteJSONString_def is_ws_def)

lemma skip_ws_punct [simp]:
  "skip_ws (0x3A # r) = 0x3A # r" "skip_ws (0x2C # r) = 0x2C # r"
  "skip_ws (0x7D # r) = 0x7D # r" "skip_ws (0x5D # r) = 0x5D # r"
  "skip_ws (0x7B # r) = 0x7B # r" "skip_ws [] = []"
  by (simp_all add: skip_ws_def is_ws_def)

lemma parse_value_string:
  "parse_value (Suc n) (QuoteJSONString s @ r) = Some (JStr s, r)"
  by (simp add: QuoteJSONString_def parse_chars_quote_body)

lemma parse_members_last:
  "parse_members (Suc (Suc n)) (QuoteJSONString k @ 0x3A # QuoteJSONString v @ 0x7D # r)
     = Some ([(k, JStr v)], r)"
proof -
  have key: "parse_chars (quote_body k @ 0x22 # 0x3A # QuoteJSONString v @ 0x7D # r)
      = Some (k, 0x3A # QuoteJSONString v @ 0x7D # r)"
    by (rule parse_chars_quote_body)
  have val: "parse_value (Suc n) (QuoteJSONString v @ 0x7D # r) = Some (JStr v, 0x7D # r)"
    by (rule parse_value_string)
  have "parse_members (Suc (Suc n)) (0x22 # quote_body k @ 0x22 # 0x3A # QuoteJSONString v @ 0x7D # r)
      = Some ([(k, JStr v)], r)"
    by (simp add: key val del: parse_value.simps)
  then show ?thesis by (simp add: QuoteJSONString_def [of k])
qed

lemma parse_members_more:
  "parse_members (Suc (Suc n))
       (QuoteJSONString k @ 0x3A # QuoteJSONString v @ 0x2C # QuoteJSONString k' @ r)
     = (case parse_members (Suc n) (QuoteJSONString k' @ r) of
          None \<Rightarrow> None
        | Some (ms, r') \<Rightarrow> Some ((k, JStr v) # ms, r'))"
proof -
  let ?rest = "0x2C # QuoteJSONString k' @ r"
  have key: "parse_chars (quote_body k @ 0x22 # 0x3A # QuoteJSONString v @ ?rest)
      = Some (k, 0x3A # QuoteJSONString v @ ?rest)"
    by (rule parse_chars_quote_body)
  have val: "parse_value (Suc n) (QuoteJSONString v @ ?rest) = Some (JStr v, ?rest)"
    by (rule parse_value_string)
  have "parse_members (Suc (Suc n)) (0x22 # quote_body k @ 0x22 # 0x3A # QuoteJSONString v @ ?rest)
      = (case parse_members (Suc n) (QuoteJSONString k' @ r) of
          None \<Rightarrow> None
        | Some (ms, r') \<Rightarrow> Some ((k, JStr v) # ms, r'))"
    by (subst parse_members.simps(2))
       (simp add: key val del: parse_value.simps parse_members.simps)
  then show ?thesis by (simp add: QuoteJSONString_def [of k])
qed


lemma parse_value_object:
  "parse_value (Suc m) (0x7B # QuoteJSONString k @ r)
     = (case parse_members m (QuoteJSONString k @ r) of
          None \<Rightarrow> None
        | Some (ms, r') \<Rightarrow> Some (JObj ms, r'))"
  by (simp add: QuoteJSONString_def skip_ws_def is_ws_def del: parse_members.simps)

lemma parse_value_item_Suc:
  "parse_value (Suc (Suc (Suc (Suc (Suc n))))) (stringify_item e @ r) = Some (json_of_item e, r)"
  by (simp add: stringify_item_def json_of_item_def parse_value_object parse_members_more
      parse_members_last del: parse_value.simps parse_members.simps)

lemma parse_value_item:
  assumes "5 \<le> n"
  shows "parse_value n (stringify_item e @ r) = Some (json_of_item e, r)"
proof -
  from assms obtain k where "n = 5 + k"
    using le_Suc_ex by blast
  then have "n = Suc (Suc (Suc (Suc (Suc k))))" by simp
  then show ?thesis by (simp only: parse_value_item_Suc)
qed


lemma parse_elements_last:
  "parse_value n s = Some (v, 0x5D # r) \<Longrightarrow> parse_elements (Suc n) s = Some ([v], r)"
  by (simp del: parse_value.simps)

lemma parse_elements_more:
  "parse_value n s = Some (v, 0x2C # r) \<Longrightarrow>
   parse_elements (Suc n) s
     = (case parse_elements n (skip_ws r) of
          None \<Rightarrow> None
        | Some (vs, r') \<Rightarrow> Some (v # vs, r'))"
  by (subst parse_elements.simps(2)) (simp del: parse_value.simps parse_elements.simps)

lemma stringify_item_brace: "stringify_item e = 0x7B # tl (stringify_item e)"
  by (simp add: stringify_item_def)

lemma stringify_items_brace:
  "es \<noteq> [] \<Longrightarrow> stringify_items es = 0x7B # tl (stringify_items es)"
proof (induction es rule: stringify_items.induct)
  case 1
  then show ?case by simp
next
  case (2 e)
  show ?case using stringify_item_brace [of e] by simp
next
  case (3 e e' es)
  show ?case using stringify_item_brace [of e] by (simp add: stringify_item_def)
qed

lemma skip_ws_items:
  "es \<noteq> [] \<Longrightarrow> skip_ws (stringify_items es @ r) = stringify_items es @ r"
proof -
  assume "es \<noteq> []"
  then have "stringify_items es @ r = 0x7B # tl (stringify_items es) @ r"
    using stringify_items_brace [of es] by (metis append_Cons)
  then show ?thesis
    by (metis skip_ws_punct(5))
qed

lemma parse_elements_items:
  "es \<noteq> [] \<Longrightarrow> length es + 5 \<le> n \<Longrightarrow>
   parse_elements n (stringify_items es @ 0x5D # r) = Some (map json_of_item es, r)"
proof (induction es arbitrary: n rule: stringify_items.induct)
  case 1
  then show ?case by simp
next
  case (2 e)
  then obtain m where n: "n = Suc m" and m: "5 \<le> m"
    by (cases n) auto
  have "parse_value m (stringify_item e @ 0x5D # r) = Some (json_of_item e, 0x5D # r)"
    using m by (rule parse_value_item)
  then have "parse_elements (Suc m) (stringify_item e @ 0x5D # r) = Some ([json_of_item e], r)"
    by (rule parse_elements_last)
  then show ?case using n by simp
next
  case (3 e e' es)
  then obtain m where n: "n = Suc m" and m: "length (e' # es) + 5 \<le> m"
    by (cases n) auto
  let ?rest = "stringify_items (e' # es) @ 0x5D # r"
  have ih: "parse_elements m ?rest = Some (map json_of_item (e' # es), r)"
    using 3(1) m by simp
  have "5 \<le> m" using m by simp
  then have "parse_value m (stringify_item e @ 0x2C # ?rest) = Some (json_of_item e, 0x2C # ?rest)"
    by (rule parse_value_item)
  then have "parse_elements (Suc m) (stringify_item e @ 0x2C # ?rest)
      = (case parse_elements m (skip_ws ?rest) of
           None \<Rightarrow> None
         | Some (vs, r') \<Rightarrow> Some (json_of_item e # vs, r'))"
    by (rule parse_elements_more)
  also have "skip_ws ?rest = ?rest"
    by (rule skip_ws_items) simp
  finally have "parse_elements (Suc m) (stringify_item e @ 0x2C # ?rest)
      = Some (map json_of_item (e # e' # es), r)"
    unfolding ih by simp
  then show ?case using n by simp
qed

lemma length_stringify_items: "length es \<le> length (stringify_items es)"
proof (induction es rule: stringify_items.induct)
  case 1
  show ?case by simp
next
  case (2 e)
  show ?case by (simp add: stringify_item_def)
next
  case (3 e e' es)
  then show ?case by simp
qed

lemma parse_value_log:
  assumes "length h + 6 \<le> n"
  shows "parse_value n (JSON_stringify h @ r) = Some (JArr (map json_of_item h), r)"
proof -
  from assms obtain m where n: "n = Suc m" and m: "length h + 5 \<le> m"
    by (cases n) auto
  show ?thesis
  proof (cases "h = []")
    case True
    then show ?thesis using n by (simp add: JSON_stringify_def)
  next
    case False
    then have brace: "stringify_items h @ 0x5D # r = 0x7B # tl (stringify_items h) @ 0x5D # r"
      using stringify_items_brace [of h] by (metis append_Cons)
    have el: "parse_elements m (0x7B # tl (stringify_items h) @ 0x5D # r)
        = Some (map json_of_item h, r)"
      using parse_elements_items [OF False m, of r] brace by simp
    have whole: "JSON_stringify h @ r = 0x5B # 0x7B # tl (stringify_items h) @ 0x5D # r"
      using brace by (simp add: JSON_stringify_def)
    have "parse_value (Suc m) (0x5B # 0x7B # tl (stringify_items h) @ 0x5D # r)
        = Some (JArr (map json_of_item h), r)"
      by (simp add: el del: parse_elements.simps)
    then show ?thesis
      unfolding n whole .
  qed
qed

lemma item_of_json_of_item: "item_of_json (json_of_item e) = Some e"
  by (simp add: item_of_json_def json_of_item_def ascii_def)

lemma items_of_json_map: "items_of_json (map json_of_item h) = Some h"
  by (induction h) (simp_all add: item_of_json_of_item)

lemma parse_value_empty_array:
  "parse_value (Suc n) (0x5B # 0x5D # r) = Some (JArr [], r)"
  by (simp add: skip_ws_def is_ws_def)

lemma JSON_parse_stringify: "JSON_parse (JSON_stringify h) = Some (JArr (map json_of_item h))"
proof (cases "h = []")
  case True
  have "parse_value (Suc 4) (0x5B # 0x5D # []) = Some (JArr [], [])"
    by (rule parse_value_empty_array)
  with True show ?thesis
    by (simp add: JSON_parse_def JSON_stringify_def skip_ws_def is_ws_def
        del: parse_value.simps)
next
  case False
  then have "1 \<le> length h" by (cases h) simp_all
  moreover have "length (JSON_stringify h) = length (stringify_items h) + 2"
    by (simp add: JSON_stringify_def)
  ultimately have "length h + 6 \<le> 2 * length (JSON_stringify h) + 1"
    using length_stringify_items [of h] by simp
  then have "parse_value (2 * length (JSON_stringify h) + 1) (JSON_stringify h @ [])
      = Some (JArr (map json_of_item h), [])"
    by (rule parse_value_log)
  moreover have "skip_ws (JSON_stringify h) = JSON_stringify h"
    by (simp add: JSON_stringify_def skip_ws_def is_ws_def)
  ultimately show ?thesis
    by (simp add: JSON_parse_def del: parse_value.simps)
qed

lemma log_roundtrip: "log_of_json (JArr (map json_of_item h)) = Some h"
  by (simp add: log_of_json_def items_of_json_map)

lemma JSON_stringify_nonempty: "JSON_stringify h \<noteq> []"
  by (simp add: JSON_stringify_def)

lemma load_after_persist:
  "stored st = Some (JSON_stringify h) \<Longrightarrow> load_history st = Inr (st\<lparr> history := h \<rparr>)"
  by (simp add: load_history_def JSON_parse_stringify log_roundtrip JSON_stringify_nonempty)

section \<open>Properties of the history store\<close>

text \<open>
  Claim C10. After \<^verbatim>\<open>clearHistory\<close> the history in memory is empty and the persisted entry
  is removed, whatever they held; a load right after it leaves the empty history, and so
  does the load of a fresh start on what was left in the store.
\<close>

theorem clear_then_load:
  "history (clearHistory st) = []
   \<and> stored (clearHistory st) = None
   \<and> load_history (clearHistory st) = Inr (clearHistory st)
   \<and> load_history (initial_state (stored (clearHistory st))) = Inr (initial_state None)"
  by (simp add: clearHistory_def load_history_def initial_state_def)

text \<open>
  Claim C7. After \<^verbatim>\<open>saveToHistory\<close>, whatever the state and the history its closure
  holds, a load succeeds and leaves the state as it is: the persisted text parses back to
  the history just stored; the load of a fresh start on the persisted text gives that
  history too. The first entry of that history carries the timestamp and the
  requirement of the call, and as its code the generated code unchanged when that has at
  most 500 characters, and otherwise its first 500 characters followed by the marker
  \<^verbatim>\<open>...\<close>; in both cases at most 503 characters.
\<close>

theorem record_then_load:
  "load_history (saveToHistory captured now reqs c st)
     = Inr (saveToHistory captured now reqs c st)
   \<and> load_history (initial_state (stored (saveToHistory captured now reqs c st)))
       = Inr ((initial_state (stored (saveToHistory captured now reqs c st)))
                \<lparr> history := history (saveToHistory captured now reqs c st) \<rparr>)
   \<and> history (saveToHistory captured now reqs c st)
       = \<lparr> timestamp = now, requirements = reqs,
            code = (if length c \<le> 500 then c else take 500 c @ ascii ''...'') \<rparr>
         # take 9 captured
   \<and> length (if length c \<le> 500 then c else take 500 c @ ascii ''...'') \<le> 503"
proof -
  let ?st = "saveToHistory captured now reqs c st"
  have persisted: "stored ?st = Some (JSON_stringify (history ?st))"
    by (simp add: saveToHistory_def Let_def)
  then have "load_history ?st = Inr (?st\<lparr> history := history ?st \<rparr>)"
    by (rule load_after_persist)
  then have a: "load_history ?st = Inr ?st" by simp
  have "stored (initial_state (stored ?st)) = Some (JSON_stringify (history ?st))"
    using persisted by (simp add: initial_state_def)
  then have a': "load_history (initial_state (stored ?st))
      = Inr ((initial_state (stored ?st))\<lparr> history := history ?st \<rparr>)"
    by (rule load_after_persist)
  have b: "history ?st = \<lparr> timestamp = now, requirements = reqs,
            code = (if length c \<le> 500 then c else take 500 c @ ascii ''...'') \<rparr>
         # take 9 captured"
    by (simp add: saveToHistory_def Let_def snippet_def substring0_def ellipsis_def)
  have c: "length (if length c \<le> 500 then c else take 500 c @ ascii ''...'') \<le> 503"
    by (simp add: ascii_def)
  from a a' b c show ?thesis by blast
qed

section \<open>The load in every state of the persistence medium\<close>

lemma JSON_parse_from:
  assumes "parse_value n (skip_ws s) = Some (v, r)" and "skip_ws r = []"
  shows "JSON_parse s = Some v"
  using JSON_parse_any_fuel [OF assms(1)] assms(2) by (simp add: JSON_parse_def)

lemma parse_value_open_bracket: "parse_value n [0x5B] = None"
  by (cases n) (simp_all add: skip_ws_def)

lemma JSON_parse_corrupt: "JSON_parse corrupt_text = None"
  by (simp add: JSON_parse_def corrupt_text_def ascii_def skip_ws_def is_ws_def
      parse_value_open_bracket del: parse_value.simps)

lemma JSON_parse_number: "JSON_parse number_text = Some (JNum (ascii ''42''))"
proof -
  have "parse_value (Suc 0) (skip_ws number_text) = Some (JNum (ascii ''42''), [])"
    by (simp add: number_text_def ascii_def skip_ws_def is_ws_def parse_number_def
        parse_fraction_def parse_exponent_def is_digit_def)
  then show ?thesis by (rule JSON_parse_from) simp
qed

lemma JSON_parse_reordered:
  "JSON_parse reordered_text
     = Some (JArr [JObj [(ascii ''code'', JStr (ascii ''pass'')),
                         (ascii ''requirements'', JStr (ascii ''Rebuild the VM'')),
                         (ascii ''timestamp'', JStr (ascii ''01''))]])"
proof -
  let ?members = "QuoteJSONString (ascii ''code'') @ 0x3A # QuoteJSONString (ascii ''pass'')
     @ 0x2C # QuoteJSONString (ascii ''requirements'') @ 0x3A
     # QuoteJSONString (ascii ''Rebuild the VM'')
     @ 0x2C # QuoteJSONString (ascii ''timestamp'') @ 0x3A # QuoteJSONString (ascii ''01'')
     @ 0x7D # [0x5D]"
  let ?obj = "JObj [(ascii ''code'', JStr (ascii ''pass'')),
                    (ascii ''requirements'', JStr (ascii ''Rebuild the VM'')),
                    (ascii ''timestamp'', JStr (ascii ''01''))]"
  have shape: "reordered_text = 0x5B # 0x7B # ?members"
    by (simp add: reordered_text_def)
  have "parse_value (Suc (Suc (Suc (Suc (Suc 0))))) (0x7B # ?members) = Some (?obj, [0x5D])"
    by (simp add: parse_value_object parse_members_more parse_members_last
        del: parse_value.simps parse_members.simps)
  then have "parse_elements (Suc (Suc (Suc (Suc (Suc (Suc 0)))))) (0x7B # ?members)
      = Some ([?obj], [])"
    by (rule parse_elements_last)
  then have "parse_value (Suc (Suc (Suc (Suc (Suc (Suc (Suc 0))))))) (0x5B # 0x7B # ?members)
      = Some (JArr [?obj], [])"
    by (simp del: parse_elements.simps)
  then have "parse_value (Suc (Suc (Suc (Suc (Suc (Suc (Suc 0))))))) (skip_ws reordered_text)
      = Some (JArr [?obj], [])"
    unfolding shape by (simp add: skip_ws_def is_ws_def del: parse_value.simps)
  then show ?thesis by (rule JSON_parse_from) simp
qed

lemma log_of_reordered:
  "log_of_json (JArr [JObj [(ascii ''code'', JStr (ascii ''pass'')),
                            (ascii ''requirements'', JStr (ascii ''Rebuild the VM'')),
                            (ascii ''timestamp'', JStr (ascii ''01''))]])
     = Some [reordered_item]"
  by (simp add: log_of_json_def item_of_json_def reordered_item_def) (simp add: ascii_def)

lemma JSON_parse_nonempty: "JSON_parse s = Some v \<Longrightarrow> s \<noteq> []"
  by (auto simp: JSON_parse_def)

text \<open>
  Claim C3, as amended. The load, for every state of the persistence medium \<open>p\<close> (no entry,
  or a text \<open>s\<close>): the history is empty before the load; with no entry and with the empty
  string the load raises nothing and leaves the empty history; a text that is not empty
  and that \<^verbatim>\<open>JSON.parse\<close> does not accept makes the load raise \<^verbatim>\<open>SyntaxError\<close>; a text that
  parses to a history (an array of objects that have the string properties \<^verbatim>\<open>timestamp\<close>,
  \<^verbatim>\<open>requirements\<close> and \<^verbatim>\<open>code\<close>, in any order of keys) gives that history; a text that
  parses to any other value gives no history, empty or not: that value is kept. These
  cases cover every \<open>p\<close>. What \<^verbatim>\<open>saveToHistory\<close> writes for a history \<open>h'\<close> parses to \<open>h'\<close>.
\<close>

theorem load_cases:
  "history (initial_state p) = []
   \<and> load_history (initial_state None) = Inr (initial_state None)
   \<and> load_history (initial_state (Some [])) = Inr (initial_state (Some []))
   \<and> (s \<noteq> [] \<and> JSON_parse s = None \<longrightarrow>
        load_history (initial_state (Some s)) = Inl SyntaxError)
   \<and> (JSON_parse s = Some v \<and> log_of_json v = Some h \<longrightarrow>
        load_history (initial_state (Some s)) = Inr ((initial_state (Some s))\<lparr> history := h \<rparr>))
   \<and> (JSON_parse s = Some v \<and> log_of_json v = None \<longrightarrow>
        load_history (initial_state (Some s)) = Inl (NotALog v))
   \<and> JSON_parse (JSON_stringify h') = Some (JArr (map json_of_item h'))
   \<and> log_of_json (JArr (map json_of_item h')) = Some h'"
  using JSON_parse_nonempty [of s v] JSON_parse_stringify [of h'] log_roundtrip [of h']
  by (auto simp: load_history_def initial_state_def)

text \<open>The cases of the load at the text \<^verbatim>\<open>[\<close>, at a history whose keys stand in another
  order than \<^verbatim>\<open>saveToHistory\<close> writes them, and at the text \<^verbatim>\<open>42\<close>.\<close>

theorem load_cases_witness:
  "corrupt_text \<noteq> [] \<and> JSON_parse corrupt_text = None
   \<and> load_history (initial_state (Some corrupt_text)) = Inl SyntaxError
   \<and> JSON_parse reordered_text
       = Some (JArr [JObj [(ascii ''code'', JStr (ascii ''pass'')),
                           (ascii ''requirements'', JStr (ascii ''Rebuild the VM'')),
                           (ascii ''timestamp'', JStr (ascii ''01''))]])
   \<and> log_of_json (JArr [JObj [(ascii ''code'', JStr (ascii ''pass'')),
                               (ascii ''requirements'', JStr (ascii ''Rebuild the VM'')),
                               (ascii ''timestamp'', JStr (ascii ''01''))]])
       = Some [reordered_item]
   \<and> load_history (initial_state (Some reordered_text))
       = Inr ((initial_state (Some reordered_text))\<lparr> history := [reordered_item] \<rparr>)
   \<and> JSON_parse number_text = Some (JNum (ascii ''42''))
   \<and> log_of_json (JNum (ascii ''42'')) = None
   \<and> load_history (initial_state (Some number_text)) = Inl (NotALog (JNum (ascii ''42'')))"
proof -
  have ne: "corrupt_text \<noteq> []" by (simp add: corrupt_text_def ascii_def)
  have a: "load_history (initial_state (Some corrupt_text)) = Inl SyntaxError"
    using load_cases [of None corrupt_text] ne JSON_parse_corrupt by blast
  have b: "load_history (initial_state (Some reordered_text))
       = Inr ((initial_state (Some reordered_text))\<lparr> history := [reordered_item] \<rparr>)"
    using load_cases [of None reordered_text _ "[reordered_item]"] JSON_parse_reordered
      log_of_reordered by blast
  have n: "log_of_json (JNum (ascii ''42'')) = None" by (simp add: log_of_json_def)
  have c: "load_history (initial_state (Some number_text)) = Inl (NotALog (JNum (ascii ''42'')))"
    using load_cases [of None number_text "JNum (ascii ''42'')"] JSON_parse_number n by blast
  from ne JSON_parse_corrupt a JSON_parse_reordered log_of_reordered b JSON_parse_number n c
  show ?thesis by blast
qed

text \<open>Against the claim as it was stated: at the persisted text \<^verbatim>\<open>[\<close> the load raises
  \<^verbatim>\<open>SyntaxError\<close>, and at the persisted text \<^verbatim>\<open>42\<close> it keeps the number; neither gives the
  empty log.\<close>

theorem load_corrupt_counterexample:
  "load_history (initial_state (Some corrupt_text)) = Inl SyntaxError
   \<and> load_history (initial_state (Some corrupt_text)) \<noteq> Inr (initial_state (Some corrupt_text))
   \<and> load_history (initial_state (Some number_text)) = Inl (NotALog (JNum (ascii ''42'')))
   \<and> load_history (initial_state (Some number_text)) \<noteq> Inr (initial_state (Some number_text))"
proof -
  have "stored (initial_state (Some corrupt_text)) = Some corrupt_text"
      "stored (initial_state (Some number_text)) = Some number_text"
    by (simp_all add: initial_state_def)
  moreover have "corrupt_text \<noteq> []" "number_text \<noteq> []"
    by (simp_all add: corrupt_text_def number_text_def ascii_def)
  ultimately show ?thesis
    by (simp add: load_history_def JSON_parse_corrupt JSON_parse_number log_of_json_def)
qed

section \<open>The history over the runs of the component\<close>

text \<open>A generation started with the shortcut adds a waiting call that holds the history
  of that moment; it changes neither the history nor what is persisted.\<close>

lemma app_run_append:
  "app_run em (xs @ ys) st
     = (case app_run em xs st of Inl e \<Rightarrow> Inl e | Inr st' \<Rightarrow> app_run em ys st')"
  by (induction xs arbitrary: st) (auto split: sum.splits)

lemma start_captures:
  assumes "trim (input st) \<noteq> []"
  shows "history (handleGenerate_start st) = history st"
    "stored (handleGenerate_start st) = stored st"
    "input (handleGenerate_start st) = input st"
    "map call_history (pending (handleGenerate_start st))
       = map call_history (pending st) @ [history st]"
  using assms by (simp_all add: handleGenerate_start_def Let_def)

lemma ctrl_enter_step:
  "app_step em ctrl_enter st = Inr (handleGenerate_start st)"
  by (simp add: ctrl_enter_def onKeyDown_def)

lemma ctrl_enter_run:
  assumes "trim (input st) \<noteq> []"
  shows "\<exists>st'. app_run em (replicate n ctrl_enter) st = Inr st'
           \<and> history st' = history st \<and> stored st' = stored st \<and> input st' = input st
           \<and> map call_history (pending st')
               = map call_history (pending st) @ replicate n (history st)"
  using assms
proof (induction n arbitrary: st)
  case 0
  show ?case by simp
next
  case (Suc n)
  let ?st1 = "handleGenerate_start st"
  from start_captures [OF Suc.prems] have s1: "history ?st1 = history st"
      "stored ?st1 = stored st" "input ?st1 = input st"
      "map call_history (pending ?st1) = map call_history (pending st) @ [history st]"
    by simp_all
  from Suc.prems s1(3) have "trim (input ?st1) \<noteq> []" by simp
  from Suc.IH [OF this] obtain st' where "app_run em (replicate n ctrl_enter) ?st1 = Inr st'"
      "history st' = history ?st1" "stored st' = stored ?st1" "input st' = input ?st1"
      "map call_history (pending st')
         = map call_history (pending ?st1) @ replicate n (history ?st1)"
    by blast
  with s1 show ?case
    by (simp add: ctrl_enter_step replicate_app_Cons_same del: app_step.simps)
qed

text \<open>A successful answer to the first waiting call: the new entry is put before the
  first 9 entries of the history that call holds, whatever the history is by then.\<close>

lemma answer_step:
  assumes "pending st = c # cs"
  shows "\<exists>st'. app_step em (answer t) st = Inr st'
           \<and> history st'
               = \<lparr> timestamp = ascii t, requirements = call_text c,
                    code = snippet (ascii ''def test(): pass'') \<rparr> # take 9 (call_history c)
           \<and> pending st' = cs \<and> input st' = input st"
  using assms
  by (simp add: answer_def settle_def success_def handleGenerate_resume_def try_block_def
      saveToHistory_def Let_def)

lemma answers_run:
  assumes "ts \<noteq> []" and "length ts \<le> length (pending st)"
    and "list_all (\<lambda>c. call_history c = h) (pending st)"
  shows "\<exists>st'. app_run em (map answer ts) st = Inr st'
           \<and> map timestamp (history st') = ascii (last ts) # map timestamp (take 9 h)"
  using assms
proof (induction ts arbitrary: st)
  case Nil
  then show ?case by simp
next
  case (Cons t ts)
  from Cons.prems(2) obtain c cs where p: "pending st = c # cs"
    by (cases "pending st") auto
  with Cons.prems(3) have c: "call_history c = h" and cs: "list_all (\<lambda>c. call_history c = h) cs"
    by simp_all
  from answer_step [OF p, of em t] c obtain st1 where s1: "app_step em (answer t) st = Inr st1"
      "history st1 = \<lparr> timestamp = ascii t, requirements = call_text c,
                    code = snippet (ascii ''def test(): pass'') \<rparr> # take 9 h"
      "pending st1 = cs"
    by auto
  show ?case
  proof (cases "ts = []")
    case True
    with s1 show ?thesis by simp
  next
    case False
    from Cons.prems(2) p s1(3) have "length ts \<le> length (pending st1)" by simp
    from Cons.IH [OF False this] cs s1(3)
    obtain st' where "app_run em (map answer ts) st1 = Inr st'"
        "map timestamp (history st') = ascii (last ts) # map timestamp (take 9 h)"
      by auto
    with s1(1) False show ?thesis by simp
  qed
qed

lemma typed_state:
  "app_step em (Change (ascii ''Rebuild the VM'')) (initial_state None)
     = Inr ((initial_state None)\<lparr> input := ascii ''Rebuild the VM'' \<rparr>)"
  by simp

lemma overlapping_timestamps:
  "timestamps_of (app_run em overlapping_run (initial_state None)) = Some [ascii ''11'']"
proof -
  let ?st0 = "(initial_state None)\<lparr> input := ascii ''Rebuild the VM'' \<rparr>"
  have t: "trim (input ?st0) \<noteq> []"
    by (simp add: trim_example) (simp add: ascii_def)
  from ctrl_enter_run [OF t, of em 11] obtain st1
    where r1: "app_run em (replicate 11 ctrl_enter) ?st0 = Inr st1"
      and p1: "map call_history (pending st1)
                 = map call_history (pending ?st0) @ replicate 11 (history ?st0)"
    by blast
  from p1 have caps: "map call_history (pending st1) = replicate 11 []"
    by (simp add: initial_state_def)
  then have len: "length (pending st1) = 11"
    by (metis length_map length_replicate)
  from caps have all: "list_all (\<lambda>c. call_history c = []) (pending st1)"
    by (metis (mono_tags, lifting) in_set_replicate list.pred_set list.set_map imageI)
  have "stamps \<noteq> []" "length stamps \<le> length (pending st1)"
    using len by (simp_all add: stamps_def)
  from answers_run [OF this all, of em] obtain st2
    where r2: "app_run em (map answer stamps) st1 = Inr st2"
      and h2: "map timestamp (history st2) = [ascii (last stamps)]"
    by auto
  have "app_run em overlapping_run (initial_state None) = Inr st2"
    unfolding overlapping_run_def
    by (simp add: app_run_append r1 r2 del: app_step.simps replicate.simps
        add: typed_state)
  with h2 show ?thesis by (simp add: timestamps_of_def stamps_def)
qed

text \<open>The invariant of the store is kept by every event.\<close>

lemma store_ok_record:
  "store_ok (saveToHistory captured now reqs c st)"
proof -
  let ?h = "\<lparr> timestamp = now, requirements = reqs, code = snippet c \<rparr> # take 9 captured"
  have s: "stored (saveToHistory captured now reqs c st) = Some (JSON_stringify ?h)"
      "history (saveToHistory captured now reqs c st) = ?h"
    by (simp_all add: saveToHistory_def Let_def)
  show ?thesis
    unfolding store_ok_def s JSON_parse_stringify option.case log_roundtrip by simp
qed

lemma store_ok_load:
  assumes "store_ok st"
  shows "\<exists>st'. load_history st = Inr st' \<and> store_ok st'"
proof (cases "stored st")
  case None
  with assms show ?thesis by (simp add: load_history_def)
next
  case (Some s)
  show ?thesis
  proof (cases "s = []")
    case True
    with Some assms show ?thesis by (simp add: load_history_def)
  next
    case False
    with Some assms obtain v h
      where p: "JSON_parse s = Some v" "log_of_json v = Some h" "length h \<le> 10"
      by (auto simp: store_ok_def split: option.splits)
    with Some False have "load_history st = Inr (st\<lparr> history := h \<rparr>)"
      by (simp add: load_history_def)
    moreover have "store_ok (st\<lparr> history := h \<rparr>)"
      using Some False p by (simp add: store_ok_def)
    ultimately show ?thesis by blast
  qed
qed

lemma take_prepend:
  "take 10 (xs @ e # take 9 h) = take 10 (xs @ e # h)"
  by (cases "10 - length xs") (simp_all add: min_def)


lemma store_ok_fields:
  "history st' = history st \<Longrightarrow> stored st' = stored st \<Longrightarrow> store_ok st' = store_ok st"
  by (simp add: store_ok_def)

lemma store_ok_start: "store_ok (handleGenerate_start st) = store_ok st"
  by (rule store_ok_fields) (simp_all add: handleGenerate_start_def Let_def)

lemma store_ok_updates:
  "store_ok (st\<lparr> output_text := x \<rparr>) = store_ok st"
  "store_ok (st\<lparr> loading := b \<rparr>) = store_ok st"
  "store_ok (st\<lparr> pending := ps \<rparr>) = store_ok st"
  "store_ok (st\<lparr> input := v \<rparr>) = store_ok st"
  by (simp_all add: store_ok_def)

lemma store_ok_try:
  assumes "store_ok st" and "try_block em now c res st = Inr st'"
  shows "store_ok st'"
  using assms
  by (auto simp: try_block_def store_ok_updates store_ok_record
      split: fetch_result.splits response_body.splits if_splits option.splits)

lemma store_ok_resume:
  assumes "store_ok st"
  shows "store_ok (handleGenerate_resume em now c res st)"
proof (cases "try_block em now c res st")
  case (Inl e)
  then show ?thesis
    using assms by (cases e) (simp add: handleGenerate_resume_def store_ok_updates)
next
  case (Inr st')
  with store_ok_try [OF assms Inr] show ?thesis
    by (simp add: handleGenerate_resume_def store_ok_updates)
qed

lemma store_ok_settle:
  assumes "store_ok st"
  shows "store_ok (settle em now i res st)"
proof (cases "i < length (pending st)")
  case True
  from assms have "store_ok (st\<lparr> pending := take i (pending st) @ drop (Suc i) (pending st) \<rparr>)"
    by (simp add: store_ok_updates)
  from store_ok_resume [OF this] True show ?thesis by (simp add: settle_def)
next
  case False
  with assms show ?thesis by (simp add: settle_def)
qed

lemma store_ok_step:
  assumes "store_ok st"
  shows "\<exists>st'. app_step em x st = Inr st' \<and> store_ok st'"
proof (cases x)
  case (Change v)
  with assms show ?thesis by (simp add: store_ok_updates)
next
  case ClickGenerate
  with assms show ?thesis by (simp add: onClick_generate_def store_ok_start)
next
  case (KeyDown key ctrlKey metaKey)
  with assms show ?thesis by (simp add: onKeyDown_def store_ok_start)
next
  case (Settle i res now)
  with store_ok_settle [OF assms] show ?thesis by simp
next
  case Load
  with store_ok_load [OF assms] show ?thesis by simp
next
  case ClearHistory
  then show ?thesis by (simp add: clearHistory_def store_ok_def)
next
  case ClickClear
  with assms show ?thesis by (simp add: handleClear_def store_ok_updates)
next
  case (ClickEntry i)
  with assms show ?thesis by (simp add: loadFromHistory_def store_ok_updates)
qed

lemma store_ok_run:
  "store_ok st \<Longrightarrow> \<exists>st'. app_run em evs st = Inr st' \<and> store_ok st'"
proof (induction evs arbitrary: st)
  case Nil
  then show ?case by simp
next
  case (Cons x xs)
  from store_ok_step [OF Cons.prems, of em x]
  obtain st1 where s1: "app_step em x st = Inr st1" "store_ok st1" by blast
  from Cons.IH [OF s1(2)] s1(1) show ?case by simp
qed

text \<open>Generations that do not overlap: each is started when no call waits.\<close>

lemma generation_step:
  assumes "trim (input st) \<noteq> []" and "pending st = []"
  shows "\<exists>st'. app_run em [ctrl_enter, answer t] st = Inr st'
           \<and> map timestamp (history st') = ascii t # take 9 (map timestamp (history st))
           \<and> pending st' = [] \<and> input st' = input st"
proof -
  let ?st1 = "handleGenerate_start st"
  from assms have p: "pending ?st1
      = [\<lparr> call_text = trim (input st), call_history = history st,
            call_request = \<lparr> spec = createOpenAPIFromText (trim (input st)),
                             test_type = getTestType (trim (input st)) \<rparr> \<rparr>]"
    and i: "input ?st1 = input st"
    by (simp_all add: handleGenerate_start_def Let_def)
  from answer_step [OF p, of em t] i obtain st' where "app_step em (answer t) ?st1 = Inr st'"
      "map timestamp (history st') = ascii t # take 9 (map timestamp (history st))"
      "pending st' = []" "input st' = input st"
    by (auto simp: take_map)
  then show ?thesis
    by (simp add: ctrl_enter_step del: app_step.simps)
qed

lemma generations_run:
  assumes "trim (input st) \<noteq> []" and "pending st = []"
  shows "\<exists>st'. app_run em (concat (map (\<lambda>t. [ctrl_enter, answer t]) ts)) st = Inr st'
           \<and> take 10 (map timestamp (history st'))
               = take 10 (rev (map ascii ts) @ map timestamp (history st))
           \<and> (ts \<noteq> [] \<longrightarrow> length (history st') \<le> 10)"
  using assms
proof (induction ts arbitrary: st)
  case Nil
  then show ?case by simp
next
  case (Cons t ts)
  from generation_step [OF Cons.prems, of em t] obtain st1
    where s1: "app_run em [ctrl_enter, answer t] st = Inr st1"
      "map timestamp (history st1) = ascii t # take 9 (map timestamp (history st))"
      "pending st1 = []" "input st1 = input st"
    by (elim exE conjE)
  from Cons.prems(1) s1(4) have "trim (input st1) \<noteq> []" by simp
  from Cons.IH [OF this s1(3)] obtain st'
    where s2: "app_run em (concat (map (\<lambda>t. [ctrl_enter, answer t]) ts)) st1 = Inr st'"
      "take 10 (map timestamp (history st'))
         = take 10 (rev (map ascii ts) @ map timestamp (history st1))"
      "ts \<noteq> [] \<longrightarrow> length (history st') \<le> 10"
    by blast
  have run: "app_run em (concat (map (\<lambda>t. [ctrl_enter, answer t]) (t # ts))) st = Inr st'"
    using app_run_append [of em "[ctrl_enter, answer t]"
        "concat (map (\<lambda>t. [ctrl_enter, answer t]) ts)" st] s1(1) s2(1)
    by (simp del: app_run.simps app_step.simps)
  have "length (map timestamp (history st1)) \<le> 10"
    unfolding s1(2) by simp
  then have "length (history st1) \<le> 10" by simp
  with s2(3) s2(1) have len: "length (history st') \<le> 10"
    by (cases "ts = []") auto
  have "take 10 (map timestamp (history st'))
      = take 10 (rev (map ascii ts) @ ascii t # take 9 (map timestamp (history st)))"
    using s2(2) unfolding s1(2) .
  also have "\<dots> = take 10 (rev (map ascii ts) @ ascii t # map timestamp (history st))"
    by (rule take_prepend)
  finally have "take 10 (map timestamp (history st'))
      = take 10 (rev (map ascii (t # ts)) @ map timestamp (history st))"
    by simp
  with run len show ?case by blast
qed

lemma sequential_timestamps:
  "timestamps_of (app_run em sequential_run (initial_state None))
     = Some (map ascii [''11'', ''10'', ''09'', ''08'', ''07'', ''06'', ''05'', ''04'', ''03'', ''02''])"
proof -
  let ?st0 = "(initial_state None)\<lparr> input := ascii ''Rebuild the VM'' \<rparr>"
  have t: "trim (input ?st0) \<noteq> []"
    by (simp add: trim_example) (simp add: ascii_def)
  have p: "pending ?st0 = []" by (simp add: initial_state_def)
  from generations_run [OF t p, of em stamps] obtain st'
    where r: "app_run em (concat (map (\<lambda>t. [ctrl_enter, answer t]) stamps)) ?st0 = Inr st'"
      and h: "take 10 (map timestamp (history st'))
               = take 10 (rev (map ascii stamps) @ map timestamp (history ?st0))"
      and l: "stamps \<noteq> [] \<longrightarrow> length (history st') \<le> 10"
    by blast
  from l have "length (map timestamp (history st')) \<le> 10" by (simp add: stamps_def)
  then have "take 10 (map timestamp (history st')) = map timestamp (history st')"
    by (rule take_all)
  with h have "map timestamp (history st')
      = map ascii [''11'', ''10'', ''09'', ''08'', ''07'', ''06'', ''05'', ''04'', ''03'', ''02'']"
    by (simp add: stamps_def)
  moreover have "app_run em sequential_run (initial_state None) = Inr st'"
    unfolding sequential_run_def using r by (simp del: app_step.simps add: typed_state)
  ultimately show ?thesis by (simp add: timestamps_of_def)
qed

text \<open>
  Claim C2. What holds of it: from a state that satisfies the invariant of the store,
  every sequence of events runs without an error and ends in a state that satisfies it,
  so the history has at most 10 entries, also after a load; and when each of eleven
  generations is started after the answer to the one before, the history ends with the
  entries of the ten last answers, newest first, the entry of the first one gone. What
  does not hold: when the shortcut starts the eleven generations before the first answer
  arrives, each \<^verbatim>\<open>saveToHistory\<close> prepends to the empty history its closure holds, and
  after the eleven records the history has one entry, that of the last answer; the
  entries of the answers \<^verbatim>\<open>02\<close> to \<^verbatim>\<open>10\<close>, which are among the ten most recent, are absent.
\<close>

theorem stale_history_drops_entries:
  "(store_ok st \<longrightarrow>
      (\<exists>st'. app_run em evs st = Inr st' \<and> store_ok st' \<and> length (history st') \<le> 10))
   \<and> timestamps_of (app_run em sequential_run (initial_state None))
       = Some (map ascii [''11'', ''10'', ''09'', ''08'', ''07'', ''06'', ''05'', ''04'', ''03'', ''02''])
   \<and> timestamps_of (app_run em overlapping_run (initial_state None)) = Some [ascii ''11'']"
proof -
  have "store_ok st \<longrightarrow>
      (\<exists>st'. app_run em evs st = Inr st' \<and> store_ok st' \<and> length (history st') \<le> 10)"
  proof
    assume "store_ok st"
    from store_ok_run [OF this, of em evs] obtain st'
      where "app_run em evs st = Inr st'" "store_ok st'" by blast
    moreover from this(2) have "length (history st') \<le> 10" by (simp add: store_ok_def)
    ultimately show "\<exists>st'. app_run em evs st = Inr st' \<and> store_ok st' \<and> length (history st') \<le> 10"
      by blast
  qed
  with sequential_timestamps [of em] overlapping_timestamps [of em] show ?thesis by blast
qed

text \<open>The invariant at the run with the overlapping generations, from the initial state
  with nothing persisted.\<close>

theorem stale_history_witness:
  "store_ok (initial_state None)
   \<and> (\<exists>st'. app_run [] overlapping_run (initial_state None) = Inr st'
         \<and> store_ok st' \<and> length (history st') \<le> 10)"
  using stale_history_drops_entries [of "initial_state None" "[]" overlapping_run]
  by (simp add: store_ok_def initial_state_def)

end
